theory Spec2Isabelle
  imports Main "HOL-Library.Word"
begin

section \<open>Python text and container primitives\<close>

text \<open>
  A Python \<open>str\<close> is a sequence of Unicode code points; it is modelled as a list of
  natural numbers. ASCII literals of the source are written with \<open>asc\<close>.
\<close>

type_synonym ustr = "nat list"

definition asc :: "string \<Rightarrow> ustr" where
  "asc s = map of_char s"

text \<open>The exceptions the modelled code could raise: a bad index, \<open>max\<close> of nothing.\<close>

datatype py_error = ValueError | IndexError

text \<open>
  Subscription \<open>xs[i]\<close>. An index from \<open>-len(xs)\<close> up to \<open>-1\<close> addresses the
  list from its end; anything outside both ranges raises.
\<close>

definition py_get :: "'a list \<Rightarrow> int \<Rightarrow> py_error + 'a" where
  "py_get xs i =
     (if 0 \<le> i \<and> i < int (length xs) then Inr (xs ! nat i)
      else if i < 0 \<and> - int (length xs) \<le> i then Inr (xs ! nat (int (length xs) + i))
      else Inl IndexError)"

text \<open>\<open>range(a, b)\<close> over Python's unbounded integers.\<close>

definition py_range :: "int \<Rightarrow> int \<Rightarrow> int list" where
  "py_range a b = [a..b - 1]"

text \<open>
  The character tables of the Unicode database belong to the Python runtime, not to the
  program. Their ASCII part is fixed here; the part beyond ASCII is a parameter of the
  model. Case conversion of a string that is not pure ASCII is a parameter on whole
  strings, because Python's \<open>str.lower\<close> is context sensitive there. The decoder of
  \<open>bytes.decode('utf-8', errors='ignore')\<close> is a parameter as well.
\<close>

record ucd =
  u_isspace :: "nat \<Rightarrow> bool"
  u_isalpha :: "nat \<Rightarrow> bool"
  u_isdigit :: "nat \<Rightarrow> bool"
  u_isalnum :: "nat \<Rightarrow> bool"
  u_lower :: "ustr \<Rightarrow> ustr"
  u_upper :: "ustr \<Rightarrow> ustr"
  u_decode :: "8 word list \<Rightarrow> ustr"

definition py_isspace :: "ucd \<Rightarrow> nat \<Rightarrow> bool" where
  "py_isspace U c =
     (if c < 128 then (9 \<le> c \<and> c \<le> 13) \<or> (28 \<le> c \<and> c \<le> 32) else u_isspace U c)"

definition ascii_upper_c :: "nat \<Rightarrow> bool" where
  "ascii_upper_c c = (65 \<le> c \<and> c \<le> 90)"

definition ascii_lower_c :: "nat \<Rightarrow> bool" where
  "ascii_lower_c c = (97 \<le> c \<and> c \<le> 122)"

definition ascii_digit_c :: "nat \<Rightarrow> bool" where
  "ascii_digit_c c = (48 \<le> c \<and> c \<le> 57)"

definition py_isalpha_c :: "ucd \<Rightarrow> nat \<Rightarrow> bool" where
  "py_isalpha_c U c = (if c < 128 then ascii_upper_c c \<or> ascii_lower_c c else u_isalpha U c)"

definition py_isdigit :: "ucd \<Rightarrow> nat \<Rightarrow> bool" where
  "py_isdigit U c = (if c < 128 then ascii_digit_c c else u_isdigit U c)"

definition py_isalnum :: "ucd \<Rightarrow> nat \<Rightarrow> bool" where
  "py_isalnum U c =
     (if c < 128 then ascii_upper_c c \<or> ascii_lower_c c \<or> ascii_digit_c c
      else u_isalnum U c)"

text \<open>\<open>str.isalpha\<close>: true for a non-empty string of alphabetic characters.\<close>

definition isalpha :: "ucd \<Rightarrow> ustr \<Rightarrow> bool" where
  "isalpha U s = (s \<noteq> [] \<and> list_all (py_isalpha_c U) s)"

definition is_ascii :: "ustr \<Rightarrow> bool" where
  "is_ascii s = list_all (\<lambda>c. c < 128) s"

definition py_lower :: "ucd \<Rightarrow> ustr \<Rightarrow> ustr" where
  "py_lower U s =
     (if is_ascii s then map (\<lambda>c. if ascii_upper_c c then c + 32 else c) s else u_lower U s)"

definition py_upper :: "ucd \<Rightarrow> ustr \<Rightarrow> ustr" where
  "py_upper U s =
     (if is_ascii s then map (\<lambda>c. if ascii_lower_c c then c - 32 else c) s else u_upper U s)"

text \<open>\<open>str.strip()\<close>, \<open>str.strip(chars)\<close> and \<open>str.rstrip('\n')\<close>.\<close>

definition strip_by :: "(nat \<Rightarrow> bool) \<Rightarrow> ustr \<Rightarrow> ustr" where
  "strip_by P s = rev (dropWhile P (rev (dropWhile P s)))"

definition strip :: "ucd \<Rightarrow> ustr \<Rightarrow> ustr" where
  "strip U s = strip_by (py_isspace U) s"

definition strip_chars :: "ustr \<Rightarrow> ustr \<Rightarrow> ustr" where
  "strip_chars cs s = strip_by (\<lambda>c. c \<in> set cs) s"

definition rstrip_nl :: "ustr \<Rightarrow> ustr" where
  "rstrip_nl s = rev (dropWhile (\<lambda>c. c = 10) (rev s))"

text \<open>\<open>str.startswith\<close>, \<open>str.endswith\<close> and the substring test \<open>sub in s\<close>.\<close>

fun startswith :: "ustr \<Rightarrow> ustr \<Rightarrow> bool" where
  "startswith s [] = True"
| "startswith [] (p # ps) = False"
| "startswith (x # xs) (p # ps) = (x = p \<and> startswith xs ps)"

definition endswith :: "ustr \<Rightarrow> ustr \<Rightarrow> bool" where
  "endswith s p = startswith (rev s) (rev p)"

fun contains :: "ustr \<Rightarrow> ustr \<Rightarrow> bool" where
  "contains sub [] = (sub = [])"
| "contains sub (x # xs) = (startswith (x # xs) sub \<or> contains sub xs)"

text \<open>\<open>str.split()\<close> without arguments: the maximal runs of non-whitespace.\<close>

fun split_by :: "(nat \<Rightarrow> bool) \<Rightarrow> ustr \<Rightarrow> ustr \<Rightarrow> ustr list" where
  "split_by P cur [] = (if cur = [] then [] else [rev cur])"
| "split_by P cur (x # xs) =
     (if P x then (if cur = [] then split_by P [] xs else rev cur # split_by P [] xs)
      else split_by P (x # cur) xs)"

definition split_ws :: "ucd \<Rightarrow> ustr \<Rightarrow> ustr list" where
  "split_ws U s = split_by (py_isspace U) [] s"

text \<open>\<open>str.split(sep)\<close> with a one-character separator: empty pieces are kept.\<close>

fun split_sep :: "nat \<Rightarrow> ustr \<Rightarrow> ustr \<Rightarrow> ustr list" where
  "split_sep c cur [] = [rev cur]"
| "split_sep c cur (x # xs) =
     (if x = c then rev cur # split_sep c [] xs else split_sep c (x # cur) xs)"

text \<open>
  \<open>re.split\<close> with a pattern that is one or more characters of a class: the pieces
  between maximal runs of the class, empty pieces at the ends included.
\<close>

fun re_split_runs :: "(nat \<Rightarrow> bool) \<Rightarrow> ustr \<Rightarrow> bool \<Rightarrow> ustr \<Rightarrow> ustr list" where
  "re_split_runs P cur in_sep [] = [rev cur]"
| "re_split_runs P cur in_sep (x # xs) =
     (if P x then (if in_sep then re_split_runs P cur True xs
                   else rev cur # re_split_runs P [] True xs)
      else re_split_runs P (x # cur) False xs)"

text \<open>\<open>str.replace\<close> of a single character and \<open>str.translate\<close> are character maps.\<close>

definition replace_char :: "nat \<Rightarrow> nat \<Rightarrow> ustr \<Rightarrow> ustr" where
  "replace_char old new s = map (\<lambda>c. if c = old then new else c) s"

text \<open>\<open>str.replace(old, new)\<close> for a non-empty \<open>old\<close>: leftmost, non-overlapping.\<close>

function str_replace :: "ustr \<Rightarrow> ustr \<Rightarrow> ustr \<Rightarrow> ustr" where
  "str_replace old new [] = []"
| "str_replace old new (x # xs) =
     (if old \<noteq> [] \<and> startswith (x # xs) old
      then new @ str_replace old new (drop (length old) (x # xs))
      else x # str_replace old new xs)"
  by pat_completeness auto
termination
  by (relation "measure (\<lambda>(old, new, s). length s)") (auto simp: neq_Nil_conv)

text \<open>\<open>string.punctuation\<close>.\<close>

definition punctuation :: ustr where
  "punctuation = [33..<48] @ [58..<65] @ [91..<97] @ [123..<127]"

section \<open>Script classifier\<close>

datatype script = Latin | Arabic | Cyrillic | CJK | Devanagari

text \<open>
  A \<open>Counter\<close> keeps its keys in insertion order, and \<open>max(counts, key=counts.get)\<close>
  returns the first key with the largest count in that order: an association list.
\<close>

type_synonym counter = "(script \<times> nat) list"

fun counter_incr :: "script \<Rightarrow> counter \<Rightarrow> counter" where
  "counter_incr k [] = [(k, 1)]"
| "counter_incr k ((k', n) # kvs) =
     (if k = k' then (k', n + 1) # kvs else (k', n) # counter_incr k kvs)"

definition counter_get :: "counter \<Rightarrow> script \<Rightarrow> nat" where
  "counter_get c k = (case map_of c k of None \<Rightarrow> 0 | Some n \<Rightarrow> n)"

definition counter_pop :: "script \<Rightarrow> counter \<Rightarrow> counter" where
  "counter_pop k c = filter (\<lambda>kv. fst kv \<noteq> k) c"

fun max_key_loop :: "('a \<Rightarrow> nat) \<Rightarrow> 'a \<Rightarrow> 'a list \<Rightarrow> 'a" where
  "max_key_loop f best [] = best"
| "max_key_loop f best (x # xs) = max_key_loop f (if f x > f best then x else best) xs"

definition py_max_key :: "('a \<Rightarrow> nat) \<Rightarrow> 'a list \<Rightarrow> py_error + 'a" where
  "py_max_key f xs = (case xs of [] \<Rightarrow> Inl ValueError | x # rest \<Rightarrow> Inr (max_key_loop f x rest))"

text \<open>The \<open>if\<close>/\<open>elif\<close> chain of the inner loop of \<open>detect_target_language_script\<close>.\<close>

definition tally_char :: "nat \<Rightarrow> counter \<Rightarrow> counter" where
  "tally_char code counts =
     (if 0x0600 \<le> code \<and> code \<le> 0x06FF then counter_incr Arabic counts
      else if 0x0400 \<le> code \<and> code \<le> 0x04FF then counter_incr Cyrillic counts
      else if (0x4E00 \<le> code \<and> code \<le> 0x9FAF) \<or> (0x3040 \<le> code \<and> code \<le> 0x309F)
              \<or> (0x30A0 \<le> code \<and> code \<le> 0x30FF) then counter_incr CJK counts
      else if 0x0900 \<le> code \<and> code \<le> 0x097F then counter_incr Devanagari counts
      else if 0x0020 \<le> code \<and> code \<le> 0x007F then counter_incr Latin counts
      else counts)"

fun tally_line :: "ustr \<Rightarrow> counter \<Rightarrow> counter" where
  "tally_line [] counts = counts"
| "tally_line (c # cs) counts = tally_line cs (tally_char c counts)"

fun tally_lines :: "int \<Rightarrow> int \<Rightarrow> ustr list \<Rightarrow> counter \<Rightarrow> counter" where
  "tally_lines sample_size i [] counts = counts"
| "tally_lines sample_size i (l # ls) counts =
     (if i \<ge> sample_size then counts
      else tally_lines sample_size (i + 1) ls (tally_line l counts))"

definition detect_target_language_script :: "ustr list \<Rightarrow> int \<Rightarrow> py_error + script" where
  "detect_target_language_script lines sample_size =
     (let counts = tally_lines sample_size 0 lines [] in
      if counts = [] then Inr Latin
      else let counts = counter_pop Latin counts in
        if counts = [] then Inr Latin
        else py_max_key (counter_get counts) (map fst counts))"

section \<open>Normalizer and validator\<close>

definition clean_word :: "ustr \<Rightarrow> ustr" where
  "clean_word word = strip_chars punctuation word"

text \<open>
  \<open>_NORMALIZE_RE.sub('', word)\<close>: every character of the class is removed (hyphen-minus,
  the hyphen U+2010, apostrophe, period, comma, slash and space).
\<close>

definition normalize_chars :: "nat list" where
  "normalize_chars = [45, 0x2010, 39, 46, 44, 47, 32]"

definition normalize_word :: "ustr \<Rightarrow> ustr" where
  "normalize_word word = filter (\<lambda>c. c \<notin> set normalize_chars) word"

definition denylist :: "ustr list" where
  "denylist = map asc [''ADN'', ''ARN'', ''ATP'', ''ADSL'', ''USB'', ''DVD'', ''AAO'', ''ABP'',
     ''AFI'', ''AMPA'', ''ACS'', ''ANPE'', ''ATB'']"

definition valid_extra_chars :: "nat list" where
  "valid_extra_chars = [39, 45, 0xe1, 0xe0, 0xe2, 0xe4, 0xe9, 0xe8, 0xea, 0xeb, 0xed, 0xec,
     0xee, 0xef, 0xf3, 0xf2, 0xf4, 0xf6, 0xfa, 0xf9, 0xfb, 0xfc, 0xfd, 0xff, 0xf1, 0xe7,
     0x142, 0x15b, 0x17a, 0x17c, 0x105, 0x119, 0x107, 0x144, 0x142, 0x17e, 0x10d, 0x161,
     0x111]"

text \<open>
  The source compares the number of alphanumeric characters with the floating-point
  product \<open>len(word) * 0.6\<close>. For every length below \<open>2^50\<close> that comparison has the
  same outcome as the integer comparison \<open>5 * count < 3 * len\<close> written here.
\<close>

definition is_valid_word :: "ucd \<Rightarrow> ustr \<Rightarrow> bool" where
  "is_valid_word U word0 =
     (if word0 = [] \<or> length word0 < 3 then False
      else let word = strip U word0 in
        if word = [] \<or> length word < 3 then False
        else if py_upper U word \<in> set denylist then False
        else if 5 * length (filter (py_isalnum U) word) < 3 * length word then False
        else list_all (\<lambda>c. py_isalnum U c \<or> py_isspace U c \<or> c \<in> set valid_extra_chars) word)"

section \<open>Unicode ranges\<close>

datatype range_key = Devanagari_range | Arabic_range | Cyrillic_range
  | Hiragana_range | Katakana_range | Unified_range

fun UNICODE_RANGES :: "range_key \<Rightarrow> nat \<times> nat" where
  "UNICODE_RANGES Devanagari_range = (0x0900, 0x097F)"
| "UNICODE_RANGES Arabic_range = (0x0600, 0x06FF)"
| "UNICODE_RANGES Cyrillic_range = (0x0400, 0x04FF)"
| "UNICODE_RANGES Hiragana_range = (0x3040, 0x309F)"
| "UNICODE_RANGES Katakana_range = (0x30A0, 0x30FF)"
| "UNICODE_RANGES Unified_range = (0x4E00, 0x9FAF)"

text \<open>A script tag as a key of \<open>UNICODE_RANGES\<close>: \<open>'latin'\<close> and \<open>'cjk'\<close> are not keys.\<close>

fun range_key_of :: "script \<Rightarrow> range_key option" where
  "range_key_of Arabic = Some Arabic_range"
| "range_key_of Cyrillic = Some Cyrillic_range"
| "range_key_of Devanagari = Some Devanagari_range"
| "range_key_of Latin = None"
| "range_key_of CJK = None"

definition is_script_character :: "nat \<Rightarrow> script \<Rightarrow> bool" where
  "is_script_character c sc =
     (case range_key_of sc of None \<Rightarrow> False
      | Some k \<Rightarrow> (case UNICODE_RANGES k of (start, end) \<Rightarrow> start \<le> c \<and> c \<le> end))"

definition is_cjk_character :: "nat \<Rightarrow> bool" where
  "is_cjk_character c =
     list_ex (\<lambda>k. case UNICODE_RANGES k of (start, end) \<Rightarrow> start \<le> c \<and> c \<le> end)
       [Hiragana_range, Katakana_range, Unified_range]"

definition contains_cjk :: "ustr \<Rightarrow> bool" where
  "contains_cjk text = list_ex is_cjk_character text"

section \<open>Header and year heuristics\<close>

definition header_prefixes :: "ustr list" where
  "header_prefixes = map asc [''#'', ''00-database'', ''Author:'', ''Maintainer:'', ''Edition:'',
     ''Size:'', ''Publisher:'', ''Availability:'', ''Copyright'', ''This program'',
     ''Published'', ''ID#'', ''Series:'', ''Changelog:'', ''*'', ''Notes:'',
     ''Source(s):'', ''Database Status:'', ''The Project:'']"

definition header_keywords :: "ustr list" where
  "header_keywords = map asc [''freedict'', ''dictionary'', ''license'', ''copyright'',
     ''available'', ''foundation'', ''version'', ''ver.'', ''converted'',
     ''imported'', ''makefile'', ''initial'', ''michael bunk'']
     @ [asc ''piotr ba'' @ [0x144] @ asc ''ski'']
     @ map asc [''conversion of tei'', ''tools/xsl'', ''manual clean-up'', ''stable'']"

definition is_header_line :: "ucd \<Rightarrow> ustr \<Rightarrow> bool" where
  "is_header_line U line =
     (let line_lower = py_lower U line in
      if list_ex (startswith line) header_prefixes then True
      else list_ex (\<lambda>keyword. contains keyword line_lower) header_keywords)"

text \<open>\<open>YEAR_PATTERN = 20(?:05|10|18|19|20|21|22|23|24)\<close>, searched anywhere in the line.\<close>

definition contains_year :: "ustr \<Rightarrow> bool" where
  "contains_year line =
     list_ex (\<lambda>y. contains y line)
       (map asc [''2005'', ''2010'', ''2018'', ''2019'', ''2020'', ''2021'', ''2022'', ''2023'',
          ''2024''])"

section \<open>Part-of-speech filter\<close>

record pos_filters =
  include_types :: "ustr list"
  skip_plurals :: bool

definition POS_FILTERS :: pos_filters where
  "POS_FILTERS = \<lparr> include_types = map asc [''n'', ''adj'', ''adv'', ''v''], skip_plurals = True \<rparr>"

text \<open>
  \<open>re.findall(r'<([^>]+)>', line)\<close>: at a \<open><\<close> the greedy class takes everything up
  to the next \<open>>\<close>; the match succeeds when that text is not empty and the \<open>>\<close>
  exists, and the scan resumes after it. Otherwise the scan resumes one character on.
\<close>

function extract_pos_tags :: "ustr \<Rightarrow> ustr list" where
  "extract_pos_tags [] = []"
| "extract_pos_tags (c # cs) =
     (if c = 60 \<and> takeWhile (\<lambda>x. x \<noteq> 62) cs \<noteq> [] \<and> dropWhile (\<lambda>x. x \<noteq> 62) cs \<noteq> []
      then takeWhile (\<lambda>x. x \<noteq> 62) cs # extract_pos_tags (tl (dropWhile (\<lambda>x. x \<noteq> 62) cs))
      else extract_pos_tags cs)"
  by pat_completeness auto
termination
  by (relation "measure length")
     (auto simp: less_Suc_eq_le intro: le_trans [OF diff_le_self length_dropWhile_le])

definition base_pos_types :: "ustr list" where
  "base_pos_types = map asc [''n'', ''adj'', ''adv'', ''v'', ''pl'']"

definition extended_pos_types :: "ustr list" where
  "extended_pos_types = map asc [''pn'', ''phraseologicalUnit'', ''interjection'',
     ''preposition'', ''pronoun'', ''conjunction'', ''numeral'', ''determiner'', ''int'',
     ''prep'', ''pron'', ''conj'', ''num'', ''vt'', ''vi'', ''art'']"

definition extract_base_pos_types :: "ucd \<Rightarrow> ustr \<Rightarrow> ustr list" where
  "extract_base_pos_types U pos_tag =
     (let parts = re_split_runs (\<lambda>c. c = 44 \<or> py_isspace U c) [] False (strip U pos_tag) in
      filter (\<lambda>part. part \<in> set base_pos_types \<or> part \<in> set extended_pos_types)
        (map (\<lambda>part. strip U (py_lower U part)) parts))"

definition should_include_word_by_pos :: "ucd \<Rightarrow> ustr \<Rightarrow> pos_filters \<Rightarrow> bool" where
  "should_include_word_by_pos U line filters =
     (if include_types filters = [] then True
      else let pos_tags = extract_pos_tags line in
        if pos_tags = [] then True
        else if skip_plurals filters
                \<and> list_ex (\<lambda>tag. asc ''pl'' \<in> set (extract_base_pos_types U tag)) pos_tags
        then False
        else list_ex (\<lambda>tag. list_ex (\<lambda>base_type. base_type \<in> set (include_types filters))
                              (extract_base_pos_types U tag)) pos_tags)"

section \<open>Pronunciation markers\<close>

definition ipa_marker_chars :: "nat list" where
  "ipa_marker_chars = [0x250, 0x259, 0x26a, 0x25b, 0x25c, 0x2d0, 0x283, 0x279, 0x254, 0x251,
     0x252, 0xe6, 0x28c, 0x294, 0x258, 0x26f, 0x264, 0x25e, 0x268, 0x28a, 0x289, 0x275, 0x276,
     0x153, 0xf8, 0x25b, 0x303, 0x254, 0x303, 0x251, 0x303, 0x2c8, 0x2cc]"

definition ipa_marker_search :: "ustr \<Rightarrow> bool" where
  "ipa_marker_search line = list_ex (\<lambda>c. c \<in> set ipa_marker_chars) line"

definition simple_class :: "nat \<Rightarrow> bool" where
  "simple_class c = (ascii_lower_c c \<or> ascii_upper_c c
     \<or> c \<in> set [0x25b, 0x254, 0x251, 0x26a, 0x259, 0x254, 0x303, 0x251, 0x303, 0x25b, 0x303])"

text \<open>
  \<open>PRONUNCIATION_SIMPLE_RE.search\<close>: some slash is followed by a non-empty run of class
  characters and then a slash. The class excludes the slash, so the greedy run is the
  only candidate at each starting slash.
\<close>

fun pronunciation_simple_search :: "ustr \<Rightarrow> bool" where
  "pronunciation_simple_search [] = False"
| "pronunciation_simple_search (c # cs) =
     ((c = 47 \<and> takeWhile simple_class cs \<noteq> []
        \<and> (case dropWhile simple_class cs of [] \<Rightarrow> False | r # _ \<Rightarrow> r = 47))
      \<or> pronunciation_simple_search cs)"

definition has_pronunciation_markers :: "ustr \<Rightarrow> bool" where
  "has_pronunciation_markers line =
     (if 47 \<notin> set line then False
      else if ipa_marker_search line then True
      else if pronunciation_simple_search line then True
      else False)"

definition extract_pronunciation_word :: "ucd \<Rightarrow> ustr \<Rightarrow> py_error + ustr option" where
  "extract_pronunciation_word U line =
     (if 47 \<notin> set line then Inr None
      else case py_get (split_sep 47 [] line) 0 of
        Inl e \<Rightarrow> Inl e
      | Inr w \<Rightarrow>
         (let word = strip U w in
          if word = [] \<or> length word < 1 then Inr None
          else let clean = normalize_word word in
            if length clean \<ge> 2 \<and> isalpha U clean \<and> \<not> list_ex (py_isdigit U) word
            then Inr (Some word) else Inr None))"

text \<open>The test \<open>word and is_valid_word(word)\<close> on an optional string.\<close>

definition truthy_valid :: "ucd \<Rightarrow> ustr option \<Rightarrow> ustr list" where
  "truthy_valid U w =
     (case w of None \<Rightarrow> [] | Some word \<Rightarrow> if word \<noteq> [] \<and> is_valid_word U word then [word] else [])"

section \<open>Word splitters\<close>

definition translate_map :: "ustr \<Rightarrow> ustr" where
  "translate_map s = map (\<lambda>c. if c = 44 \<or> c = 0x60c \<or> c = 0x3001 \<or> c = 126 then 32 else c) s"

definition extract_simple_translation_words :: "ucd \<Rightarrow> ustr \<Rightarrow> ustr list" where
  "extract_simple_translation_words U translation =
     filter (isalpha U) (map clean_word (split_ws U (translate_map translation)))"

text \<open>
  \<open>re.split\<close> with the alternation of a run of delimiter characters and a run of
  whitespace: the two runs are separate matches, so an empty piece lies between two
  adjacent runs.
  State 0 is outside a separator, 1 inside a run of the first class, 2 inside whitespace.
\<close>

fun re_split_alt :: "(nat \<Rightarrow> bool) \<Rightarrow> (nat \<Rightarrow> bool) \<Rightarrow> ustr \<Rightarrow> nat \<Rightarrow> ustr \<Rightarrow> ustr list" where
  "re_split_alt P Q cur st [] = [rev cur]"
| "re_split_alt P Q cur st (x # xs) =
     (if P x then (if st = 1 then re_split_alt P Q cur 1 xs
                   else rev cur # re_split_alt P Q [] 1 xs)
      else if Q x then (if st = 2 then re_split_alt P Q cur 2 xs
                        else rev cur # re_split_alt P Q [] 2 xs)
      else re_split_alt P Q (x # cur) 0 xs)"

definition cjk_delims :: "nat list" where
  "cjk_delims = [44, 0xff0c, 0x3001, 0x3002, 0xff1b, 59]"

definition yield_words_by_script :: "ucd \<Rightarrow> ustr \<Rightarrow> script \<Rightarrow> ustr list" where
  "yield_words_by_script U line sc =
     (if sc = CJK then
        filter (\<lambda>clean. clean \<noteq> [] \<and> contains_cjk clean)
          (map (strip_chars ([46, 44, 0xff0c, 0x3001, 0x3002, 0xff1b, 59, 32]))
             (re_split_alt (\<lambda>c. c \<in> set cjk_delims) (py_isspace U) [] 0 (strip U line)))
      else
        let ranges = (case sc of Arabic \<Rightarrow> [(0x0600, 0x06FF)] | Cyrillic \<Rightarrow> [(0x0400, 0x04FF)]
                      | Devanagari \<Rightarrow> [(0x0900, 0x097F)] | _ \<Rightarrow> []) in
        filter (\<lambda>clean. clean \<noteq> [] \<and> length clean \<ge> 2
                  \<and> list_all (\<lambda>c. list_ex (\<lambda>(start, end). start \<le> c \<and> c \<le> end) ranges
                                    \<or> c \<in> set [32, 45]) clean)
          (map clean_word (split_ws U line)))"

definition ENGLISH_STOPWORDS :: "ustr list" where
  "ENGLISH_STOPWORDS = map asc [''the'', ''and'', ''of'', ''or'', ''in'', ''to'', ''for'', ''with'',
     ''from'', ''by'', ''at'', ''on'', ''an'', ''as'', ''be'', ''is'',
     ''are'', ''was'', ''were'', ''been'', ''have'', ''has'', ''had'',
     ''will'', ''would'', ''could'', ''should'', ''may'', ''might'',
     ''can'', ''must'']"

section \<open>Layout detectors\<close>

datatype pattern = Source_target | Target_source | Unknown

datatype role = Source | Target

definition alternating_headers :: "ustr list" where
  "alternating_headers = map asc [''00-database'', ''Author:'', ''Size:'']"

text \<open>One iteration of the sampling loop of \<open>detect_alternating_pattern\<close>.\<close>

definition alternating_sample :: "ucd \<Rightarrow> ustr \<Rightarrow> ustr \<Rightarrow> pattern list" where
  "alternating_sample U line1 line2 =
     (let has_pronunciation_1 = has_pronunciation_markers line1;
          has_pronunciation_2 = has_pronunciation_markers line2;
          is_latin_1 = isalpha U (normalize_word line1);
          is_latin_2 = isalpha U (normalize_word line2)
      in if has_pronunciation_1 \<and> is_latin_2 \<and> \<not> has_pronunciation_2 then [Source_target]
         else if has_pronunciation_2 \<and> is_latin_1 \<and> \<not> has_pronunciation_1 then [Target_source]
         else [])"

fun alternating_loop :: "ucd \<Rightarrow> ustr list \<Rightarrow> int list \<Rightarrow> pattern list \<Rightarrow> py_error + pattern list"
where
  "alternating_loop U lines [] pattern_samples = Inr pattern_samples"
| "alternating_loop U lines (i # rest) pattern_samples =
     (case py_get lines i of
        Inl e \<Rightarrow> Inl e
      | Inr l1 \<Rightarrow>
         (case py_get lines (i + 1) of
            Inl e \<Rightarrow> Inl e
          | Inr l2 \<Rightarrow>
             (let line1 = strip U l1; line2 = strip U l2 in
              if line1 \<noteq> [] \<and> line2 \<noteq> []
                 \<and> \<not> list_ex (\<lambda>header. contains header line1) alternating_headers
                 \<and> \<not> list_ex (\<lambda>header. contains header line2) alternating_headers
              then let pattern_samples' = pattern_samples @ alternating_sample U line1 line2 in
                if length pattern_samples' \<ge> 5 then Inr pattern_samples'
                else alternating_loop U lines rest pattern_samples'
              else alternating_loop U lines rest pattern_samples)))"

definition detect_alternating_pattern :: "ucd \<Rightarrow> ustr list \<Rightarrow> py_error + pattern" where
  "detect_alternating_pattern U lines =
     (case alternating_loop U lines (py_range 50 (min 200 (int (length lines) - 1))) [] of
        Inl e \<Rightarrow> Inl e
      | Inr pattern_samples \<Rightarrow>
         if pattern_samples = [] then Inr Unknown
         else let source_target_count = count_list pattern_samples Source_target;
                  target_source_count = count_list pattern_samples Target_source
              in if source_target_count > target_source_count then Inr Source_target
                 else if target_source_count > source_target_count then Inr Target_source
                 else Inr Unknown)"

text \<open>The test of one window of \<open>detect_multiline_format\<close>, on the stripped lines.\<close>

definition multiline_indicator :: "ucd \<Rightarrow> ustr \<Rightarrow> ustr \<Rightarrow> ustr \<Rightarrow> bool" where
  "multiline_indicator U line1 line2 line3 =
     (line1 \<noteq> [] \<and> line2 \<noteq> [] \<and> line3 \<noteq> []
      \<and> 47 \<in> set line1 \<and> 60 \<in> set line1
      \<and> \<not> (47 \<in> set line2)
      \<and> (46 \<in> set line3 \<or> length (split_ws U line3) > 8))"

fun multiline_loop :: "ucd \<Rightarrow> ustr list \<Rightarrow> int list \<Rightarrow> nat \<Rightarrow> py_error + bool" where
  "multiline_loop U lines [] multiline_indicators = Inr False"
| "multiline_loop U lines (i # rest) multiline_indicators =
     (case py_get lines i of
        Inl e \<Rightarrow> Inl e
      | Inr l1 \<Rightarrow>
         (case py_get lines (i + 1) of
            Inl e \<Rightarrow> Inl e
          | Inr l2 \<Rightarrow>
             (case py_get lines (i + 2) of
                Inl e \<Rightarrow> Inl e
              | Inr l3 \<Rightarrow>
                 (let multiline_indicators' =
                        (if multiline_indicator U (strip U l1) (strip U l2) (strip U l3)
                         then multiline_indicators + 1 else multiline_indicators)
                  in if multiline_indicators' \<ge> 5 then Inr True
                     else multiline_loop U lines rest multiline_indicators'))))"

definition detect_multiline_format :: "ucd \<Rightarrow> ustr list \<Rightarrow> py_error + bool" where
  "detect_multiline_format U lines =
     multiline_loop U lines (py_range 50 (min 150 (int (length lines) - 2))) 0"

definition simple_markers :: "ustr list" where
  "simple_markers = map asc [''/'', ''<'', ''>'', ''1.'', ''2.'', ''*'']"

definition technical_tokens :: "ustr list" where
  "technical_tokens = map asc [''http'', ''www'', ''email'', ''@'', ''creating'', ''makefile'']"

text \<open>
  The body of the loop of \<open>detect_simple_format\<close> on the stripped line and its stripped
  successor: the five \<open>continue\<close> guards, then the pattern test. True when the
  iteration counts a pattern. (The flag \<open>found_dictionary_start\<close> of the source is
  written and never read.)
\<close>

definition simple_pattern_line :: "ucd \<Rightarrow> ustr \<Rightarrow> ustr \<Rightarrow> bool" where
  "simple_pattern_line U line next_line =
     (if line = [] then False
      else if is_header_line U line then False
      else if contains_year line then False
      else if length line > 50 then False
      else if 58 \<in> set line \<and> \<not> startswith line [45] then False
      else line \<noteq> [] \<and> next_line \<noteq> []
         \<and> \<not> (startswith line [32] \<or> startswith line [9])
         \<and> \<not> list_ex (\<lambda>marker. contains marker line) simple_markers
         \<and> length line \<le> 30
         \<and> \<not> endswith line [58]
         \<and> \<not> list_ex (\<lambda>word. contains word (py_lower U line)) technical_tokens)"

fun simple_loop :: "ucd \<Rightarrow> ustr list \<Rightarrow> int list \<Rightarrow> nat \<Rightarrow> py_error + bool" where
  "simple_loop U lines [] pattern_count = Inr False"
| "simple_loop U lines (i # rest) pattern_count =
     (case py_get lines i of
        Inl e \<Rightarrow> Inl e
      | Inr l \<Rightarrow>
         (case py_get lines (i + 1) of
            Inl e \<Rightarrow> Inl e
          | Inr nl \<Rightarrow>
             (if simple_pattern_line U (strip U l) (strip U nl)
              then (if pattern_count + 1 \<ge> 3 then Inr True
                    else simple_loop U lines rest (pattern_count + 1))
              else simple_loop U lines rest pattern_count)))"

definition detect_simple_format :: "ucd \<Rightarrow> ustr list \<Rightarrow> py_error + bool" where
  "detect_simple_format U lines =
     (let has_pronunciation_pos =
            list_ex (\<lambda>line. 47 \<in> set line \<and> 60 \<in> set line \<and> 62 \<in> set line) (take 200 lines)
      in if has_pronunciation_pos then Inr False
         else simple_loop U lines (py_range 50 (min 400 (int (length lines) - 1))) 0)"

section \<open>Extraction strategies\<close>

text \<open>
  A \<open>for\<close> loop whose body only appends to \<open>words\<close> (or continues): the words of
  each iteration in order, or the first exception.
\<close>

fun collect :: "('a \<Rightarrow> py_error + 'b list) \<Rightarrow> 'a list \<Rightarrow> py_error + 'b list" where
  "collect f [] = Inr []"
| "collect f (x # xs) =
     (case f x of
        Inl e \<Rightarrow> Inl e
      | Inr ws \<Rightarrow> (case collect f xs of Inl e \<Rightarrow> Inl e | Inr rest \<Rightarrow> Inr (ws @ rest)))"

subsection \<open>Script-driven\<close>

definition target_ipa_chars :: "nat list" where
  "target_ipa_chars = [0x2c8, 0x2cc, 0x251, 0x25b, 0x26a, 0x259, 0x279, 0x3b8, 0xf0]"

definition script_line_words :: "ucd \<Rightarrow> role \<Rightarrow> script \<Rightarrow> ustr \<Rightarrow> py_error + ustr list" where
  "script_line_words U extract_language target_script l =
     (let line = strip U l in
      if line = [] \<or> is_header_line U line then Inr []
      else if \<not> should_include_word_by_pos U line POS_FILTERS then Inr []
      else if extract_language = Source then
        (if 47 \<in> set line then
           (case extract_pronunciation_word U line of
              Inl e \<Rightarrow> Inl e
            | Inr word \<Rightarrow> Inr (truthy_valid U word))
         else if isalpha U (normalize_word line) \<and> length line \<ge> 2
                 \<and> list_all (\<lambda>c. c < 256) line
                 \<and> \<not> list_ex (\<lambda>c. 0x0600 \<le> c \<and> c \<le> 0x06FF) line
         then Inr [line] else Inr [])
      else
        (if target_script \<in> set [Arabic, Cyrillic, Devanagari, CJK] then
           (if (target_script = CJK \<and> contains_cjk line)
               \<or> (target_script \<noteq> CJK \<and> list_ex (\<lambda>c. is_script_character c target_script) line)
            then Inr (yield_words_by_script U line target_script) else Inr [])
         else
           (if \<not> (47 \<in> set line \<and> list_ex (\<lambda>ch. ch \<in> set line) target_ipa_chars)
               \<and> isalpha U (normalize_word line)
            then Inr [line] else Inr [])))"

definition extract_words_by_script_detection ::
  "ucd \<Rightarrow> ustr list \<Rightarrow> role \<Rightarrow> script \<Rightarrow> py_error + ustr list" where
  "extract_words_by_script_detection U lines extract_language target_script =
     collect (script_line_words U extract_language target_script) lines"

subsection \<open>Multiline\<close>

definition multiline_target_words :: "ucd \<Rightarrow> ustr \<Rightarrow> ustr list" where
  "multiline_target_words U line2 =
     (let cleaned_line = str_replace (asc ''2.'') [32] (replace_char 59 32 (replace_char 44 32 line2))
      in filter (\<lambda>clean. clean \<noteq> [] \<and> length clean \<ge> 3 \<and> isalpha U (normalize_word clean)
                   \<and> list_all (\<lambda>c. c < 256) clean
                   \<and> py_lower U clean \<notin> set ENGLISH_STOPWORDS)
           (map clean_word (split_ws U cleaned_line)))"

function multiline_words_loop ::
  "ucd \<Rightarrow> ustr list \<Rightarrow> role \<Rightarrow> int \<Rightarrow> ustr list \<Rightarrow> py_error + ustr list" where
  "multiline_words_loop U lines extract_language i words =
     (if i < int (length lines) - 2 then
        (case py_get lines i of
           Inl e \<Rightarrow> Inl e
         | Inr l1 \<Rightarrow>
            (case py_get lines (i + 1) of
               Inl e \<Rightarrow> Inl e
             | Inr l2 \<Rightarrow>
                (case py_get lines (i + 2) of
                   Inl e \<Rightarrow> Inl e
                 | Inr l3 \<Rightarrow>
                    (if strip U l1 \<noteq> [] \<and> strip U l2 \<noteq> []
                        \<and> 47 \<in> set (strip U l1) \<and> 60 \<in> set (strip U l1)
                        \<and> \<not> (47 \<in> set (strip U l2)) \<and> \<not> (60 \<in> set (strip U l2))
                     then
                       (if \<not> should_include_word_by_pos U (strip U l1) POS_FILTERS
                        then multiline_words_loop U lines extract_language (i + 1) words
                        else if extract_language = Source then
                          (case extract_pronunciation_word U (strip U l1) of
                             Inl e \<Rightarrow> Inl e
                           | Inr word \<Rightarrow>
                              multiline_words_loop U lines extract_language (i + 3)
                                (words @ truthy_valid U word))
                        else
                          multiline_words_loop U lines extract_language (i + 3)
                            (words @ multiline_target_words U (strip U l2)))
                     else multiline_words_loop U lines extract_language (i + 1) words))))
      else Inr words)"
  by pat_completeness auto
termination
  by (relation "measure (\<lambda>(U, lines, extract_language, i, words). nat (int (length lines) - i))")
     auto

definition extract_multiline_format_words :: "ucd \<Rightarrow> ustr list \<Rightarrow> role \<Rightarrow> py_error + ustr list"
where
  "extract_multiline_format_words U lines extract_language =
     multiline_words_loop U lines extract_language 0 []"

subsection \<open>Alternating pairs\<close>

definition pair_translation_words :: "ucd \<Rightarrow> ustr \<Rightarrow> ustr list" where
  "pair_translation_words U line2 =
     (let cleaned_line = replace_char 59 32 (replace_char 44 32 line2)
      in filter (\<lambda>clean. clean \<noteq> [] \<and> length clean \<ge> 2 \<and> isalpha U (normalize_word clean)
                   \<and> list_all (\<lambda>c. c < 256) clean)
           (map clean_word (split_ws U cleaned_line)))"

definition pronunciation_line_words :: "ucd \<Rightarrow> ustr \<Rightarrow> py_error + ustr list" where
  "pronunciation_line_words U line1 =
     (if \<not> should_include_word_by_pos U line1 POS_FILTERS then Inr []
      else case extract_pronunciation_word U line1 of
             Inl e \<Rightarrow> Inl e
           | Inr word \<Rightarrow> Inr (truthy_valid U word))"

definition translation_line_words :: "ucd \<Rightarrow> ustr \<Rightarrow> py_error + ustr list" where
  "translation_line_words U line2 =
     (if \<not> should_include_word_by_pos U line2 POS_FILTERS then Inr []
      else Inr (pair_translation_words U line2))"

text \<open>The body of the pair loop of \<open>extract_words_with_pattern_detection\<close>.\<close>

definition pattern_pair_words ::
  "ucd \<Rightarrow> role \<Rightarrow> pattern \<Rightarrow> ustr \<Rightarrow> ustr \<Rightarrow> py_error + ustr list" where
  "pattern_pair_words U extract_language pat line1 line2 =
     (if line1 = [] \<or> line2 = [] \<or> is_header_line U line1 \<or> is_header_line U line2 then Inr []
      else
        let has_pronunciation_1 = has_pronunciation_markers line1;
            has_pronunciation_2 = has_pronunciation_markers line2
        in if pat = Source_target then
             (if extract_language = Source \<and> has_pronunciation_1 \<and> \<not> has_pronunciation_2
              then pronunciation_line_words U line1
              else if extract_language = Target \<and> \<not> has_pronunciation_2 \<and> has_pronunciation_1
              then translation_line_words U line2
              else Inr [])
           else if pat = Target_source then
             (if extract_language = Target \<and> has_pronunciation_1 \<and> \<not> has_pronunciation_2
              then pronunciation_line_words U line1
              else if extract_language = Source \<and> \<not> has_pronunciation_2 \<and> has_pronunciation_1
              then translation_line_words U line2
              else Inr [])
           else Inr [])"

definition pattern_pair_at ::
  "ucd \<Rightarrow> ustr list \<Rightarrow> role \<Rightarrow> pattern \<Rightarrow> int \<Rightarrow> py_error + ustr list" where
  "pattern_pair_at U lines extract_language pat i =
     (case py_get lines i of
        Inl e \<Rightarrow> Inl e
      | Inr l1 \<Rightarrow>
         (case py_get lines (i + 1) of
            Inl e \<Rightarrow> Inl e
          | Inr l2 \<Rightarrow> pattern_pair_words U extract_language pat (strip U l1) (strip U l2)))"

definition extract_words_with_pattern_detection ::
  "ucd \<Rightarrow> ustr list \<Rightarrow> role \<Rightarrow> pattern \<Rightarrow> py_error + ustr list" where
  "extract_words_with_pattern_detection U lines extract_language pat =
     (case detect_multiline_format U lines of
        Inl e \<Rightarrow> Inl e
      | Inr is_multiline \<Rightarrow>
         if is_multiline then extract_multiline_format_words U lines extract_language
         else collect (pattern_pair_at U lines extract_language pat)
                (py_range 0 (int (length lines) - 1)))"

subsection \<open>Simple headword/translation pairs\<close>

text \<open>
  The source-role branch shared, with the same text, by \<open>_extract_simple_format_words\<close>
  and \<open>_extract_with_header_skip\<close>.
\<close>

definition headword_words :: "ucd \<Rightarrow> ustr \<Rightarrow> ustr list" where
  "headword_words U line =
     (let clean_line = clean_word line in
      if clean_line \<noteq> [] \<and> length clean_line \<ge> 1
         \<and> \<not> list_ex (py_isdigit U) clean_line
         \<and> \<not> list_ex (\<lambda>ch. ch \<in> set clean_line) [40, 41, 91, 93, 60, 62, 47, 92]
         \<and> should_include_word_by_pos U line POS_FILTERS
      then [clean_line] else [])"

definition pair_words :: "ucd \<Rightarrow> role \<Rightarrow> ustr \<Rightarrow> ustr \<Rightarrow> ustr list" where
  "pair_words U extract_language line next_line =
     (if extract_language = Source then headword_words U line
      else if next_line \<noteq> [] then extract_simple_translation_words U next_line
      else [])"

text \<open>
  The iterator of \<open>_extract_simple_format_words\<close>: a skipped line consumes one element,
  a processed line consumes its successor too (\<open>next(iterator, '')\<close>).
\<close>

function extract_simple_format_words :: "ucd \<Rightarrow> ustr list \<Rightarrow> role \<Rightarrow> ustr list" where
  "extract_simple_format_words U [] extract_language = []"
| "extract_simple_format_words U (l # ls) extract_language =
     (if strip U l = [] \<or> is_header_line U (strip U l)
      then extract_simple_format_words U ls extract_language
      else pair_words U extract_language (strip U l)
             (strip U (case ls of [] \<Rightarrow> [] | n # _ \<Rightarrow> n))
           @ extract_simple_format_words U (drop 1 ls) extract_language)"
  by pat_completeness auto
termination
  by (relation "measure (\<lambda>(U, lines, extract_language). length lines)") auto

subsection \<open>Header-skip fallback\<close>

definition start_markers :: "ustr list" where
  "start_markers = map asc [''/'', ''<'', ''>'', ''*'', ''('', '')'']"

fun find_start_idx :: "ucd \<Rightarrow> ustr list \<Rightarrow> int list \<Rightarrow> py_error + int" where
  "find_start_idx U lines [] = Inr 0"
| "find_start_idx U lines (i # rest) =
     (case py_get lines i of
        Inl e \<Rightarrow> Inl e
      | Inr l \<Rightarrow>
         (let line = strip U l in
          if line = [] \<or> is_header_line U line \<or> contains_year line
             \<or> length line > 50 \<or> 58 \<in> set line
          then find_start_idx U lines rest
          else if length line \<le> 30 \<and> normalize_word line \<noteq> []
                  \<and> \<not> list_ex (\<lambda>marker. contains marker line) start_markers
                  \<and> i + 1 < int (length lines)
          then (case py_get lines (i + 1) of
                  Inl e \<Rightarrow> Inl e
                | Inr nl \<Rightarrow>
                   if strip U nl \<noteq> [] \<and> length (strip U nl) > length line then Inr i
                   else find_start_idx U lines rest)
          else find_start_idx U lines rest))"

function header_skip_loop ::
  "ucd \<Rightarrow> ustr list \<Rightarrow> role \<Rightarrow> int \<Rightarrow> ustr list \<Rightarrow> py_error + ustr list" where
  "header_skip_loop U lines extract_language i words =
     (if i < int (length lines) - 1 then
        (case py_get lines i of
           Inl e \<Rightarrow> Inl e
         | Inr l \<Rightarrow>
            (case py_get lines (i + 1) of
               Inl e \<Rightarrow> Inl e
             | Inr nl \<Rightarrow>
                (if strip U l = [] \<or> strip U nl = []
                 then header_skip_loop U lines extract_language (i + 1) words
                 else header_skip_loop U lines extract_language (i + 2)
                        (words @ pair_words U extract_language (strip U l) (strip U nl)))))
      else Inr words)"
  by pat_completeness auto
termination
  by (relation "measure (\<lambda>(U, lines, extract_language, i, words). nat (int (length lines) - i))")
     auto

definition extract_with_header_skip :: "ucd \<Rightarrow> ustr list \<Rightarrow> role \<Rightarrow> py_error + ustr list" where
  "extract_with_header_skip U lines extract_language =
     (case find_start_idx U lines (py_range 0 (int (length lines))) of
        Inl e \<Rightarrow> Inl e
      | Inr start_idx \<Rightarrow> header_skip_loop U lines extract_language start_idx [])"

section \<open>The line-oriented pipeline\<close>

definition extract_words_from_gzip_content ::
  "ucd \<Rightarrow> ustr list \<Rightarrow> role \<Rightarrow> bool \<Rightarrow> py_error + ustr list" where
  "extract_words_from_gzip_content U lines_iter extract_language is_dz_file =
     (let lines = map rstrip_nl lines_iter in
      case detect_target_language_script lines 500 of
        Inl e \<Rightarrow> Inl e
      | Inr target_script \<Rightarrow>
         if target_script \<in> set [Arabic, Cyrillic, CJK, Devanagari]
         then extract_words_by_script_detection U lines extract_language target_script
         else
           (case detect_alternating_pattern U lines of
              Inl e \<Rightarrow> Inl e
            | Inr pat \<Rightarrow>
               if pat \<in> set [Source_target, Target_source] then
                 (if is_dz_file \<and> pat = Target_source then
                    let actual_extract_language =
                          (if extract_language = Source then Target else Source)
                    in extract_words_with_pattern_detection U lines actual_extract_language pat
                  else extract_words_with_pattern_detection U lines extract_language pat)
               else
                 (case detect_simple_format U lines of
                    Inl e \<Rightarrow> Inl e
                  | Inr simple_format \<Rightarrow>
                     (case detect_multiline_format U lines of
                        Inl e \<Rightarrow> Inl e
                      | Inr multiline_format \<Rightarrow>
                         if simple_format
                         then Inr (extract_simple_format_words U lines extract_language)
                         else if multiline_format
                         then extract_multiline_format_words U lines extract_language
                         else extract_with_header_skip U lines extract_language))))"

section \<open>Binary index parser\<close>

text \<open>
  \<open>extract_words_from_stardict\<close> reads the index and the data file of a directory and
  then works on the two byte buffers; the model starts from the buffers.
\<close>

type_synonym bytes = "8 word list"

text \<open>\<open>data.find(b'\x00', pos)\<close>: the first index at or after \<open>pos\<close> holding a zero byte.\<close>

definition find_null :: "bytes \<Rightarrow> nat \<Rightarrow> nat option" where
  "find_null data pos =
     (let k = length (takeWhile (\<lambda>b. b \<noteq> 0) (drop pos data))
      in if pos + k < length data then Some (pos + k) else None)"

text \<open>The slice \<open>data[a:b]\<close> for \<open>0 \<le> a\<close>.\<close>

definition slice :: "'a list \<Rightarrow> nat \<Rightarrow> nat \<Rightarrow> 'a list" where
  "slice data a b = take (b - a) (drop a data)"

definition be32 :: "bytes \<Rightarrow> nat" where
  "be32 bs = foldl (\<lambda>acc b. acc * 256 + unat b) 0 bs"

text \<open>\<open>struct.unpack('>II', bs)\<close>; \<open>None\<close> stands for \<open>struct.error\<close>.\<close>

definition unpack_II :: "bytes \<Rightarrow> (nat \<times> nat) option" where
  "unpack_II bs = (if length bs = 8 then Some (be32 (take 4 bs), be32 (drop 4 bs)) else None)"

text \<open>
  The primary pass. It returns the entries and the final value of \<open>pos\<close>. The branch
  for \<open>struct.error\<close> is the source's \<open>except ...: continue\<close>.
\<close>

function parse_index ::
  "ucd \<Rightarrow> bytes \<Rightarrow> bytes \<Rightarrow> nat \<Rightarrow> (ustr \<times> ustr) list \<Rightarrow> (ustr \<times> ustr) list \<times> nat" where
  "parse_index U idx_data dict_data pos entries =
     (if pos < length idx_data then
        (case find_null idx_data pos of
           None \<Rightarrow> (entries, pos)
         | Some null_pos \<Rightarrow>
            (if null_pos + 1 + 8 > length idx_data then (entries, null_pos + 1)
             else
               (case unpack_II (slice idx_data (null_pos + 1) (null_pos + 1 + 8)) of
                  None \<Rightarrow> parse_index U idx_data dict_data (null_pos + 1) entries
                | Some (offset, size') \<Rightarrow>
                   (if offset < length dict_data then
                      parse_index U idx_data dict_data (null_pos + 1 + 8)
                        (entries @
                           [(u_decode U (slice idx_data pos null_pos),
                             u_decode U (slice dict_data offset
                                (offset + min size' (length dict_data - offset))))])
                    else parse_index U idx_data dict_data (null_pos + 1 + 8) entries))))
      else (entries, pos))"
  by pat_completeness auto
termination
  by (relation "measure (\<lambda>(U, idx_data, dict_data, pos, entries). length idx_data - pos)")
     (auto simp: find_null_def Let_def split: if_splits)

text \<open>The recovery pass: the same walk, keeping only the words.\<close>

function recover_index ::
  "ucd \<Rightarrow> bytes \<Rightarrow> role \<Rightarrow> ustr set \<Rightarrow> nat \<Rightarrow> ustr list \<Rightarrow> ustr list" where
  "recover_index U idx_data extract_language existing_words pos words =
     (if pos < length idx_data then
        (case find_null idx_data pos of
           None \<Rightarrow> words
         | Some null_pos \<Rightarrow>
            (if null_pos + 1 + 8 > length idx_data then words
             else
               (let word = u_decode U (slice idx_data pos null_pos);
                    cleaned_word = clean_word word
                in recover_index U idx_data extract_language existing_words (null_pos + 1 + 8)
                     (if extract_language = Source \<and> is_valid_word U cleaned_word
                         \<and> word \<notin> existing_words
                      then words @ [cleaned_word] else words))))
      else words)"
  by pat_completeness auto
termination
  by (relation "measure (\<lambda>(U, idx_data, extract_language, existing_words, pos, words).
        length idx_data - pos)")
     (auto simp: find_null_def Let_def split: if_splits)

definition entry_words :: "ucd \<Rightarrow> role \<Rightarrow> (ustr \<times> ustr) list \<Rightarrow> ustr list" where
  "entry_words U extract_language entries =
     concat (map (\<lambda>(word, definition).
        if extract_language = Source
        then (let cleaned_word = clean_word word in
              if is_valid_word U cleaned_word then [cleaned_word] else [])
        else []) entries)"

definition extract_words_from_stardict :: "ucd \<Rightarrow> bytes \<Rightarrow> bytes \<Rightarrow> role \<Rightarrow> ustr list \<times> nat" where
  "extract_words_from_stardict U idx_data dict_data extract_language =
     (case parse_index U idx_data dict_data 0 [] of
        (entries, pos) \<Rightarrow>
          if length entries < pos div 12 then
            (let words = recover_index U idx_data extract_language (set (map fst entries)) 0 []
             in (words @ entry_words U extract_language entries, length words))
          else (entry_words U extract_language entries, 0))"

section \<open>Reference definitions for the properties\<close>

text \<open>
  A Unicode database that knows no whitespace, letters or digits beyond ASCII, leaves
  non-ASCII strings unchanged under case conversion and decodes each byte as one code
  point. It serves for concrete evaluations on ASCII inputs.
\<close>

definition ascii_ucd :: ucd where
  "ascii_ucd = \<lparr> u_isspace = (\<lambda>c. False), u_isalpha = (\<lambda>c. False), u_isdigit = (\<lambda>c. False),
          u_isalnum = (\<lambda>c. False), u_lower = (\<lambda>s. s), u_upper = (\<lambda>s. s), u_decode = map unat \<rparr>"

text \<open>
  The records of an index buffer as the format describes them: a null-terminated word,
  then a big-endian 32-bit offset and a big-endian 32-bit length; a truncated trailing
  record ends the list.
\<close>

function index_records :: "bytes \<Rightarrow> nat \<Rightarrow> (bytes \<times> nat \<times> nat) list" where
  "index_records idx_data pos =
     (if pos < length idx_data then
        (case find_null idx_data pos of
           None \<Rightarrow> []
         | Some null_pos \<Rightarrow>
            if null_pos + 1 + 8 > length idx_data then []
            else (slice idx_data pos null_pos,
                  be32 (slice idx_data (null_pos + 1) (null_pos + 1 + 4)),
                  be32 (slice idx_data (null_pos + 1 + 4) (null_pos + 1 + 8)))
                 # index_records idx_data (null_pos + 1 + 8))
      else [])"
  by pat_completeness auto
termination
  by (relation "measure (\<lambda>(idx_data, pos). length idx_data - pos)")
     (auto simp: find_null_def Let_def split: if_splits)

definition record_entry :: "ucd \<Rightarrow> bytes \<Rightarrow> bytes \<times> nat \<times> nat \<Rightarrow> ustr \<times> ustr" where
  "record_entry U dict_data r =
     (case r of (w, offset, sz) \<Rightarrow>
        (u_decode U w,
         u_decode U (take (min sz (length dict_data - offset)) (drop offset dict_data))))"

definition record_in_bounds :: "bytes \<Rightarrow> bytes \<times> nat \<times> nat \<Rightarrow> bool" where
  "record_in_bounds dict_data r = (case r of (w, offset, sz) \<Rightarrow> offset < length dict_data)"

definition sample_idx :: bytes where
  "sample_idx = [104, 101, 108, 108, 111, 0, 0, 0, 0, 100, 0, 0, 0, 5,
                 119, 111, 114, 108, 100, 0, 0, 0, 0, 2, 0, 0, 0, 50]"

definition sample_dict :: bytes where
  "sample_dict = [97, 98, 99, 100, 101, 102]"

definition hello_bytes :: bytes where
  "hello_bytes = [104, 101, 108, 108, 111]"

definition hello :: ustr where
  "hello = [104, 101, 108, 108, 111]"

definition world :: ustr where
  "world = [119, 111, 114, 108, 100]"

text \<open>
  The tracked ranges of the script classifier as the specification lists them, and the
  number of characters of a script in a list of lines.
\<close>

fun in_script :: "script \<Rightarrow> nat \<Rightarrow> bool" where
  "in_script Latin c = (0x20 \<le> c \<and> c \<le> 0x7F)"
| "in_script Arabic c = (0x0600 \<le> c \<and> c \<le> 0x06FF)"
| "in_script Cyrillic c = (0x0400 \<le> c \<and> c \<le> 0x04FF)"
| "in_script Devanagari c = (0x0900 \<le> c \<and> c \<le> 0x097F)"
| "in_script CJK c = ((0x3040 \<le> c \<and> c \<le> 0x309F) \<or> (0x30A0 \<le> c \<and> c \<le> 0x30FF)
                       \<or> (0x4E00 \<le> c \<and> c \<le> 0x9FAF))"

definition script_count :: "script \<Rightarrow> ustr list \<Rightarrow> nat" where
  "script_count sc lines = length (filter (in_script sc) (concat lines))"

text \<open>Every count stored in a counter is positive.\<close>

definition counter_pos :: "counter \<Rightarrow> bool" where
  "counter_pos c = (\<forall>kv \<in> set c. 0 < snd kv)"

text \<open>
  The triple test of the multiline detector at index \<open>i\<close>: first as the specification
  words it (the second line has neither a slash nor an angle bracket), then with the
  second line only required to have no slash.
\<close>

definition claimed_multiline_triple :: "ucd \<Rightarrow> ustr list \<Rightarrow> nat \<Rightarrow> bool" where
  "claimed_multiline_triple U lines i =
     (i + 2 < length lines
      \<and> (let line1 = strip U (lines ! i); line2 = strip U (lines ! (i + 1));
              line3 = strip U (lines ! (i + 2))
         in line1 \<noteq> [] \<and> line2 \<noteq> [] \<and> line3 \<noteq> []
            \<and> 47 \<in> set line1 \<and> (60 \<in> set line1 \<or> 62 \<in> set line1)
            \<and> 47 \<notin> set line2 \<and> 60 \<notin> set line2 \<and> 62 \<notin> set line2
            \<and> (46 \<in> set line3 \<or> 8 < length (split_ws U line3))))"

definition multiline_triple :: "ucd \<Rightarrow> ustr list \<Rightarrow> nat \<Rightarrow> bool" where
  "multiline_triple U lines i =
     (i + 2 < length lines
      \<and> (let line1 = strip U (lines ! i); line2 = strip U (lines ! (i + 1));
              line3 = strip U (lines ! (i + 2))
         in line1 \<noteq> [] \<and> line2 \<noteq> [] \<and> line3 \<noteq> []
            \<and> 47 \<in> set line1 \<and> 60 \<in> set line1
            \<and> 47 \<notin> set line2
            \<and> (46 \<in> set line3 \<or> 8 < length (split_ws U line3))))"

text \<open>
  A qualifying line of the simple-format detector at index \<open>i\<close> as the specification
  words it, and the guard on the first 200 lines that precedes the scan.
\<close>

definition claimed_simple_line :: "ucd \<Rightarrow> ustr list \<Rightarrow> nat \<Rightarrow> bool" where
  "claimed_simple_line U lines i =
     (i + 1 < length lines
      \<and> (let line = strip U (lines ! i); next_line = strip U (lines ! (i + 1))
         in line \<noteq> [] \<and> \<not> is_header_line U line \<and> \<not> contains_year line
            \<and> length line \<le> 50
            \<and> (58 \<in> set line \<longrightarrow> startswith line [45])
            \<and> \<not> list_ex (\<lambda>marker. contains marker line) simple_markers
            \<and> \<not> list_ex (\<lambda>word. contains word (py_lower U line)) technical_tokens
            \<and> length line \<le> 30
            \<and> next_line \<noteq> []))"

definition has_pronunciation_pos :: "ustr list \<Rightarrow> bool" where
  "has_pronunciation_pos lines =
     list_ex (\<lambda>line. 47 \<in> set line \<and> 60 \<in> set line \<and> 62 \<in> set line) (take 200 lines)"

definition casa_line :: ustr where
  "casa_line = asc ''casa /'' @ [0x2c8] @ asc ''kasa/ <n>''"

definition house_line :: ustr where
  "house_line = asc ''house''"

definition casa_word :: ustr where
  "casa_word = asc ''casa''"

definition casa_corpus :: "ustr list" where
  "casa_corpus = replicate 50 []
     @ [casa_line, house_line, casa_line, house_line, casa_line, house_line]
     @ replicate 4 []"

definition ts_corpus :: "ustr list" where
  "ts_corpus = replicate 50 [] @ [house_line, casa_line, house_line, casa_line]"

definition short_corpus :: "ustr list" where
  "short_corpus = [house_line, casa_line]"

definition cyrillic_corpus :: "ustr list" where
  "cyrillic_corpus = replicate 50 0x0410 # replicate 499 []"

definition cyrillic_arabic_corpus :: "ustr list" where
  "cyrillic_arabic_corpus = (replicate 50 0x0410 @ replicate 51 0x0627) # replicate 499 []"

definition two_script_sample :: "ustr list" where
  "two_script_sample = [[0x0410, 65], [0x0627, 0x0628]]"

definition entry_line :: ustr where
  "entry_line = asc ''a/<n>''"

definition tagged_line :: ustr where
  "tagged_line = asc ''b<c>''"

definition prose_line :: ustr where
  "prose_line = asc ''d.''"

definition tagged_triples_corpus :: "ustr list" where
  "tagged_triples_corpus = replicate 50 []
     @ [entry_line, tagged_line, prose_line, entry_line, tagged_line, prose_line,
        entry_line, tagged_line, prose_line, entry_line, tagged_line, prose_line,
        entry_line, tagged_line, prose_line]"

definition abc_line :: ustr where
  "abc_line = asc ''abc''"

definition marker_line :: ustr where
  "marker_line = asc ''w/<n>''"

definition guarded_corpus :: "ustr list" where
  "guarded_corpus = marker_line # replicate 49 [] @ [abc_line, abc_line, abc_line, abc_line]"

definition plain_corpus :: "ustr list" where
  "plain_corpus = replicate 50 [] @ [abc_line, abc_line, abc_line, abc_line]"

text \<open>An index with one record whose headword ends with a hyphen and whose offset is out of bounds.\<close>

definition dash_idx :: bytes where
  "dash_idx = [97, 98, 45, 0, 0, 0, 0, 100, 0, 0, 0, 5]"

definition dash_bytes :: bytes where
  "dash_bytes = [97, 98, 45]"

definition dash_word :: ustr where
  "dash_word = [97, 98, 45]"

section \<open>Auxiliary facts\<close>

declare parse_index.simps [simp del] recover_index.simps [simp del] index_records.simps [simp del]

declare multiline_words_loop.simps [simp del] header_skip_loop.simps [simp del]

lemma py_range_empty: "b \<le> a \<Longrightarrow> py_range a b = []"
  by (simp add: py_range_def)

lemma py_get_in: "0 \<le> i \<Longrightarrow> i < int (length xs) \<Longrightarrow> py_get xs i = Inr (xs ! nat i)"
  by (simp add: py_get_def)

lemma py_get_map:
  "py_get (map f xs) i = (case py_get xs i of Inl e \<Rightarrow> Inl e | Inr x \<Rightarrow> Inr (f x))"
  by (auto simp: py_get_def)

lemma in_py_range: "i \<in> set (py_range a b) \<longleftrightarrow> a \<le> i \<and> i < b"
  by (auto simp: py_range_def)

lemma strip_by_suffix:
  assumes "\<forall>x \<in> set t. P x"
  shows "strip_by P (r @ t) = strip_by P r"
proof (cases "\<forall>x \<in> set r. P x")
  case True
  have a: "dropWhile P (r @ t) = []"
    by (rule dropWhile_eq_Nil_conv [THEN iffD2]) (use True assms in auto)
  have b: "dropWhile P r = []"
    by (rule dropWhile_eq_Nil_conv [THEN iffD2]) (use True in auto)
  show ?thesis unfolding strip_by_def a b by (rule refl)
next
  case False
  then obtain x where "x \<in> set r" "\<not> P x" by blast
  then have c: "dropWhile P (r @ t) = dropWhile P r @ t"
    by (rule dropWhile_append1)
  have d: "dropWhile P (rev t @ rev (dropWhile P r)) = dropWhile P (rev (dropWhile P r))"
    by (rule dropWhile_append2) (use assms in auto)
  show ?thesis unfolding strip_by_def c by (simp only: rev_append d)
qed

lemma rstrip_nl_decomp: "\<exists>k. s = rstrip_nl s @ replicate k 10"
proof -
  have "rev s = takeWhile (\<lambda>c. c = 10) (rev s) @ dropWhile (\<lambda>c. c = 10) (rev s)"
    by simp
  then have "s = rev (dropWhile (\<lambda>c. c = 10) (rev s)) @ rev (takeWhile (\<lambda>c. c = 10) (rev s))"
    by (metis rev_append rev_rev_ident)
  moreover have "rev (takeWhile (\<lambda>c. c = 10) (rev s))
      = replicate (length (takeWhile (\<lambda>c. c = 10) (rev s))) 10"
  proof -
    have "\<forall>y \<in> set (takeWhile (\<lambda>c. c = 10) (rev s)). y = 10"
      by (auto dest: set_takeWhileD)
    then have "replicate (length (takeWhile (\<lambda>c. c = 10) (rev s))) 10
        = takeWhile (\<lambda>c. c = 10) (rev s)"
      by (rule replicate_length_same)
    then show ?thesis
      by (metis rev_replicate)
  qed
  ultimately show ?thesis
    unfolding rstrip_nl_def by metis
qed

lemma strip_rstrip_nl: "strip U (rstrip_nl s) = strip U s"
proof -
  obtain k where k: "s = rstrip_nl s @ replicate k 10"
    using rstrip_nl_decomp by blast
  have "strip_by (py_isspace U) (rstrip_nl s @ replicate k 10) = strip_by (py_isspace U) (rstrip_nl s)"
    by (rule strip_by_suffix) (simp add: py_isspace_def)
  then show ?thesis
    using k by (simp add: strip_def)
qed

lemma tally_line_append: "tally_line (a @ b) c = tally_line b (tally_line a c)"
  by (induction a arbitrary: c) auto

lemma tally_line_newlines: "tally_line (replicate k 10) c = c"
  by (induction k) (auto simp: tally_char_def)

lemma tally_line_rstrip_nl: "tally_line (rstrip_nl s) c = tally_line s c"
proof -
  obtain k where k: "s = rstrip_nl s @ replicate k 10"
    using rstrip_nl_decomp by blast
  have "tally_line (rstrip_nl s @ replicate k 10) c = tally_line (rstrip_nl s) c"
    by (simp add: tally_line_append tally_line_newlines)
  then show ?thesis using k by simp
qed

lemma tally_lines_rstrip_nl:
  "tally_lines n i (map rstrip_nl ls) c = tally_lines n i ls c"
  by (induction ls arbitrary: i c) (auto simp: tally_line_rstrip_nl)

lemma detect_script_rstrip_nl:
  "detect_target_language_script (map rstrip_nl ls) n = detect_target_language_script ls n"
  by (simp add: detect_target_language_script_def tally_lines_rstrip_nl)

lemma split_sep_nonempty: "split_sep c cur s \<noteq> []"
  by (induction s arbitrary: cur) auto

lemma extract_pronunciation_word_total: "\<not> isl (extract_pronunciation_word U line)"
proof -
  obtain x xs where "split_sep 47 [] line = x # xs"
    using split_sep_nonempty [of 47 "[]" line] by (cases "split_sep 47 [] line") auto
  then show ?thesis
    by (simp add: extract_pronunciation_word_def py_get_def Let_def)
qed

lemma alternating_loop_total:
  "\<forall>i \<in> set idxs. 0 \<le> i \<and> i + 1 < int (length lines) \<Longrightarrow>
   \<not> isl (alternating_loop U lines idxs acc)"
  by (induction idxs arbitrary: acc) (auto simp: py_get_in Let_def)

lemma detect_alternating_total: "\<not> isl (detect_alternating_pattern U lines)"
proof -
  have "\<not> isl (alternating_loop U lines (py_range 50 (min 200 (int (length lines) - 1))) [])"
    by (rule alternating_loop_total) (auto simp: in_py_range)
  then show ?thesis
    by (auto simp: detect_alternating_pattern_def Let_def split: sum.splits)
qed

lemma multiline_loop_total:
  "\<forall>i \<in> set idxs. 0 \<le> i \<and> i + 2 < int (length lines) \<Longrightarrow>
   \<not> isl (multiline_loop U lines idxs n)"
  by (induction idxs arbitrary: n) (auto simp: py_get_in Let_def)

lemma detect_multiline_total: "\<not> isl (detect_multiline_format U lines)"
  unfolding detect_multiline_format_def
  by (rule multiline_loop_total) (auto simp: in_py_range)

lemma simple_loop_total:
  "\<forall>i \<in> set idxs. 0 \<le> i \<and> i + 1 < int (length lines) \<Longrightarrow>
   \<not> isl (simple_loop U lines idxs n)"
  by (induction idxs arbitrary: n) (auto simp: py_get_in Let_def)

lemma detect_simple_total: "\<not> isl (detect_simple_format U lines)"
proof -
  have "\<not> isl (simple_loop U lines (py_range 50 (min 400 (int (length lines) - 1))) 0)"
    by (rule simple_loop_total) (auto simp: in_py_range)
  then show ?thesis
    by (simp add: detect_simple_format_def Let_def)
qed

lemma collect_total: "\<forall>x \<in> set xs. \<not> isl (f x) \<Longrightarrow> \<not> isl (collect f xs)"
  by (induction xs) (auto split: sum.splits)

lemma script_line_words_total: "\<not> isl (script_line_words U r sc l)"
  using extract_pronunciation_word_total [of U "strip U l"]
  by (auto simp: script_line_words_def Let_def split: sum.splits)

lemma script_detection_total: "\<not> isl (extract_words_by_script_detection U lines r sc)"
  unfolding extract_words_by_script_detection_def
  by (rule collect_total) (simp add: script_line_words_total)

lemma pattern_pair_words_total: "\<not> isl (pattern_pair_words U r p l1 l2)"
  using extract_pronunciation_word_total [of U l1]
  by (auto simp: pattern_pair_words_def pronunciation_line_words_def translation_line_words_def
      Let_def split: sum.splits)

lemma pattern_pair_at_total:
  "0 \<le> i \<Longrightarrow> i + 1 < int (length lines) \<Longrightarrow> \<not> isl (pattern_pair_at U lines r p i)"
  by (simp add: pattern_pair_at_def py_get_in pattern_pair_words_total)

lemma multiline_words_loop_total:
  "0 \<le> i \<Longrightarrow> \<not> isl (multiline_words_loop U lines r i words)"
proof (induction "nat (int (length lines) - i)" arbitrary: i words r rule: less_induct)
  case less
  show ?case
  proof (cases "i < int (length lines) - 2")
    case False
    then show ?thesis by (simp add: multiline_words_loop.simps [of _ _ _ i])
  next
    case True
    have IH1: "\<And>ws r. \<not> isl (multiline_words_loop U lines r (i + 1) ws)"
      by (rule less) (use True less.prems in auto)
    have IH3: "\<And>ws r. \<not> isl (multiline_words_loop U lines r (i + 3) ws)"
      by (rule less) (use True less.prems in auto)
    show ?thesis
      apply (subst multiline_words_loop.simps)
      using True less.prems extract_pronunciation_word_total [of U "strip U (lines ! nat i)"]
      apply (auto simp add: py_get_in IH1 IH3 split: sum.splits)
      done
  qed
qed

lemma multiline_words_total: "\<not> isl (extract_multiline_format_words U lines r)"
  by (simp add: extract_multiline_format_words_def multiline_words_loop_total)

lemma pattern_detection_total: "\<not> isl (extract_words_with_pattern_detection U lines r p)"
proof -
  have "\<not> isl (collect (pattern_pair_at U lines r p) (py_range 0 (int (length lines) - 1)))"
    by (rule collect_total) (auto simp: in_py_range pattern_pair_at_total)
  then show ?thesis
    using detect_multiline_total [of U lines]
    by (auto simp: extract_words_with_pattern_detection_def multiline_words_total split: sum.splits)
qed

lemma find_start_idx_total:
  "\<forall>i \<in> set idxs. 0 \<le> i \<and> i < int (length lines) \<Longrightarrow>
   \<exists>k. find_start_idx U lines idxs = Inr k \<and> 0 \<le> k"
  by (induction idxs) (auto simp: py_get_in Let_def)

lemma header_skip_loop_total:
  "0 \<le> i \<Longrightarrow> \<not> isl (header_skip_loop U lines r i words)"
proof (induction "nat (int (length lines) - i)" arbitrary: i words r rule: less_induct)
  case less
  show ?case
  proof (cases "i < int (length lines) - 1")
    case False
    then show ?thesis by (simp add: header_skip_loop.simps [of _ _ _ i])
  next
    case True
    have IH1: "\<And>ws. \<not> isl (header_skip_loop U lines r (i + 1) ws)"
      by (rule less) (use True less.prems in auto)
    have IH2: "\<And>ws. \<not> isl (header_skip_loop U lines r (i + 2) ws)"
      by (rule less) (use True less.prems in auto)
    show ?thesis
      apply (subst header_skip_loop.simps)
      using True less.prems
      apply (simp add: py_get_in IH1 IH2)
      done
  qed
qed

lemma header_skip_total: "\<not> isl (extract_with_header_skip U lines r)"
proof -
  obtain k where "find_start_idx U lines (py_range 0 (int (length lines))) = Inr k" "0 \<le> k"
    using find_start_idx_total [of "py_range 0 (int (length lines))" lines U]
    by (auto simp: in_py_range)
  then show ?thesis
    by (simp add: extract_with_header_skip_def header_skip_loop_total)
qed

lemma counter_get_incr:
  "counter_get (counter_incr k c) k' = (if k' = k then counter_get c k + 1 else counter_get c k')"
  by (induction c) (auto simp: counter_get_def)

lemma counter_get_tally_char:
  "counter_get (tally_char code c) sc = counter_get c sc + (if in_script sc code then 1 else 0)"
  by (cases sc) (auto simp: tally_char_def counter_get_incr)

lemma counter_get_tally_line:
  "counter_get (tally_line l c) sc = counter_get c sc + length (filter (in_script sc) l)"
  by (induction l arbitrary: c) (auto simp: counter_get_tally_char)

lemma tally_lines_take:
  "tally_lines n i ls c = tally_line (concat (take (nat (n - i)) ls)) c"
proof (induction ls arbitrary: i c)
  case Nil
  then show ?case by simp
next
  case (Cons l ls)
  show ?case
  proof (cases "i \<ge> n")
    case True
    then show ?thesis by simp
  next
    case False
    then have "nat (n - i) = Suc (nat (n - (i + 1)))" by simp
    then show ?thesis
      using False Cons [of "i + 1"] by (simp add: tally_line_append)
  qed
qed

lemma counter_get_Nil: "counter_get [] sc = 0"
  by (simp add: counter_get_def)

lemma counter_get_tally_lines:
  "counter_get (tally_lines n 0 ls []) sc = script_count sc (take (nat n) ls)"
  by (simp add: tally_lines_take counter_get_tally_line script_count_def counter_get_Nil)

lemma counter_pos_incr: "counter_pos c \<Longrightarrow> counter_pos (counter_incr k c)"
  by (induction c) (force simp: counter_pos_def split: if_splits)+

lemma counter_pos_tally_char: "counter_pos c \<Longrightarrow> counter_pos (tally_char code c)"
  by (simp add: tally_char_def counter_pos_incr)

lemma counter_pos_tally_line: "counter_pos c \<Longrightarrow> counter_pos (tally_line l c)"
  by (induction l arbitrary: c) (auto simp: counter_pos_tally_char)

lemma counter_pos_tally_lines: "counter_pos (tally_lines n 0 ls [])"
  unfolding tally_lines_take
  by (rule counter_pos_tally_line) (simp add: counter_pos_def)

lemma counter_pos_pop: "counter_pos c \<Longrightarrow> counter_pos (counter_pop k c)"
  by (auto simp: counter_pos_def counter_pop_def)

lemma counter_get_pop:
  "counter_get (counter_pop k c) k' = (if k' = k then 0 else counter_get c k')"
  by (induction c) (auto simp: counter_get_def counter_pop_def)

lemma counter_key_iff:
  "counter_pos c \<Longrightarrow> k \<in> set (map fst c) \<longleftrightarrow> 0 < counter_get c k"
proof (induction c)
  case Nil
  then show ?case by (simp add: counter_get_def)
next
  case (Cons kv c)
  then have "counter_pos c" "0 < snd kv" by (auto simp: counter_pos_def)
  with Cons.IH show ?case
    by (cases kv) (auto simp: counter_get_def)
qed

lemma max_key_loop_spec:
  "max_key_loop f b xs \<in> set (b # xs) \<and> (\<forall>x \<in> set (b # xs). f x \<le> f (max_key_loop f b xs))"
proof (induction xs arbitrary: b)
  case Nil
  then show ?case by simp
next
  case (Cons x xs)
  from Cons [of "if f b < f x then x else b"] show ?case
    by (auto intro: order_trans)
qed

lemma py_max_key_spec:
  "xs \<noteq> [] \<Longrightarrow> \<exists>r. py_max_key f xs = Inr r \<and> r \<in> set xs \<and> (\<forall>x \<in> set xs. f x \<le> f r)"
  using max_key_loop_spec [of f "hd xs" "tl xs"]
  by (cases xs) (auto simp: py_max_key_def)

lemma detect_script_result:
  "\<exists>r. detect_target_language_script lines n = Inr r
     \<and> (r = Latin \<longleftrightarrow> (\<forall>sc. sc \<noteq> Latin \<longrightarrow> script_count sc (take (nat n) lines) = 0))
     \<and> (r \<noteq> Latin \<longrightarrow> 0 < script_count r (take (nat n) lines)
          \<and> (\<forall>sc. sc \<noteq> Latin \<longrightarrow> script_count sc (take (nat n) lines)
                                   \<le> script_count r (take (nat n) lines)))"
proof -
  define C where "C = tally_lines n 0 lines []"
  define D where "D = counter_pop Latin C"
  have get: "\<And>sc. counter_get C sc = script_count sc (take (nat n) lines)"
    by (simp add: C_def counter_get_tally_lines)
  have pos: "counter_pos C" by (simp add: C_def counter_pos_tally_lines)
  have posD: "counter_pos D" by (simp add: D_def pos counter_pos_pop)
  have getD: "\<And>sc. sc \<noteq> Latin \<Longrightarrow> counter_get D sc = counter_get C sc"
    by (simp add: D_def counter_get_pop)
  have getDL: "counter_get D Latin = 0"
    by (simp add: D_def counter_get_pop)
  have unf: "detect_target_language_script lines n =
      (if C = [] then Inr Latin else if D = [] then Inr Latin
       else py_max_key (counter_get D) (map fst D))"
    by (simp add: detect_target_language_script_def C_def D_def Let_def)
  show ?thesis
  proof (cases "D = []")
    case True
    have "C = [] \<Longrightarrow> D = []" by (simp add: D_def counter_pop_def)
    have z: "\<And>sc. sc \<noteq> Latin \<Longrightarrow> counter_get C sc = 0"
      using True getD by (simp add: counter_get_def)
    show ?thesis
      using True z by (auto simp: unf get [symmetric])
  next
    case False
    then have "C \<noteq> []" by (auto simp: D_def counter_pop_def)
    from False obtain r where r: "py_max_key (counter_get D) (map fst D) = Inr r"
        "r \<in> set (map fst D)" "\<forall>x \<in> set (map fst D). counter_get D x \<le> counter_get D r"
      using py_max_key_spec [of "map fst D" "counter_get D"] by auto
    have rpos: "0 < counter_get D r"
      using r(2) counter_key_iff [OF posD] by blast
    then have rl: "r \<noteq> Latin" using getDL by auto
    have le: "counter_get D sc \<le> counter_get D r" for sc
    proof (cases "sc \<in> set (map fst D)")
      case True
      then show ?thesis using r(3) by blast
    next
      case False
      then have "counter_get D sc = 0" using counter_key_iff [OF posD, of sc] by simp
      then show ?thesis by simp
    qed
    have res: "detect_target_language_script lines n = Inr r"
      using False \<open>C \<noteq> []\<close> r(1) by (simp add: unf)
    have a: "0 < script_count r (take (nat n) lines)"
      using rpos rl getD get by metis
    have b: "script_count sc (take (nat n) lines) \<le> script_count r (take (nat n) lines)"
      if "sc \<noteq> Latin" for sc
      using le [of sc] that rl getD get by metis
    show ?thesis
      using res rl a b by (intro exI [of _ r]) auto
  qed
qed

lemma detect_script_take:
  "detect_target_language_script (take (nat n) lines) n = detect_target_language_script lines n"
  by (simp add: detect_target_language_script_def tally_lines_take)

lemma detect_script_total: "\<not> isl (detect_target_language_script lines n)"
  using detect_script_result [of lines n] by auto

lemma alternating_loop_map:
  assumes g: "\<And>l. strip U (g l) = strip U l"
  shows "alternating_loop U (map g lines) idxs acc = alternating_loop U lines idxs acc"
  by (induction idxs arbitrary: acc) (auto simp: py_get_map g Let_def split: sum.splits)

lemma detect_alternating_map:
  assumes g: "\<And>l. strip U (g l) = strip U l"
  shows "detect_alternating_pattern U (map g lines) = detect_alternating_pattern U lines"
  by (simp add: detect_alternating_pattern_def alternating_loop_map [OF g])

lemma multiline_loop_map:
  assumes g: "\<And>l. strip U (g l) = strip U l"
  shows "multiline_loop U (map g lines) idxs n = multiline_loop U lines idxs n"
  by (induction idxs arbitrary: n) (auto simp: py_get_map g Let_def split: sum.splits)

lemma detect_multiline_map:
  assumes g: "\<And>l. strip U (g l) = strip U l"
  shows "detect_multiline_format U (map g lines) = detect_multiline_format U lines"
  by (simp add: detect_multiline_format_def multiline_loop_map [OF g])

lemma pattern_pair_at_map:
  assumes g: "\<And>l. strip U (g l) = strip U l"
  shows "pattern_pair_at U (map g lines) r p i = pattern_pair_at U lines r p i"
  by (auto simp: pattern_pair_at_def py_get_map g split: sum.splits)

lemma multiline_words_loop_map:
  assumes g: "\<And>l. strip U (g l) = strip U l"
  shows "multiline_words_loop U (map g lines) r i words = multiline_words_loop U lines r i words"
proof (induction "nat (int (length lines) - i)" arbitrary: i words r rule: less_induct)
  case less
  show ?case
  proof (cases "i < int (length lines) - 2")
    case False
    then show ?thesis
      by (simp add: multiline_words_loop.simps [of _ _ _ i])
  next
    case True
    have IH1: "\<And>ws r. multiline_words_loop U (map g lines) r (i + 1) ws
        = multiline_words_loop U lines r (i + 1) ws"
      by (rule less) (use True in auto)
    have IH3: "\<And>ws r. multiline_words_loop U (map g lines) r (i + 3) ws
        = multiline_words_loop U lines r (i + 3) ws"
      by (rule less) (use True in auto)
    show ?thesis
      apply (subst multiline_words_loop.simps [of U "map g lines"])
      apply (subst multiline_words_loop.simps [of U lines r i])
      using True
      apply (auto simp add: py_get_map g IH1 IH3 split: sum.splits)
      done
  qed
qed

lemma multiline_words_map:
  assumes g: "\<And>l. strip U (g l) = strip U l"
  shows "extract_multiline_format_words U (map g lines) r = extract_multiline_format_words U lines r"
  by (simp add: extract_multiline_format_words_def multiline_words_loop_map [OF g])

lemma pattern_detection_map:
  assumes g: "\<And>l. strip U (g l) = strip U l"
  shows "extract_words_with_pattern_detection U (map g lines) r p
       = extract_words_with_pattern_detection U lines r p"
proof -
  have "pattern_pair_at U (map g lines) r p = pattern_pair_at U lines r p"
    by (rule ext) (rule pattern_pair_at_map [OF g])
  then show ?thesis
    by (simp add: extract_words_with_pattern_detection_def detect_multiline_map [OF g]
        multiline_words_map [OF g] split: sum.splits)
qed

lemma find_start_idx_map:
  assumes g: "\<And>l. strip U (g l) = strip U l"
  shows "find_start_idx U (map g lines) idxs = find_start_idx U lines idxs"
  by (induction idxs) (auto simp: py_get_map g Let_def split: sum.splits)

lemma header_skip_loop_map:
  assumes g: "\<And>l. strip U (g l) = strip U l"
  shows "header_skip_loop U (map g lines) r i words = header_skip_loop U lines r i words"
proof (induction "nat (int (length lines) - i)" arbitrary: i words rule: less_induct)
  case less
  show ?case
  proof (cases "i < int (length lines) - 1")
    case False
    then show ?thesis
      by (simp add: header_skip_loop.simps [of _ _ _ i])
  next
    case True
    have IH1: "\<And>ws. header_skip_loop U (map g lines) r (i + 1) ws
        = header_skip_loop U lines r (i + 1) ws"
      by (rule less) (use True in auto)
    have IH2: "\<And>ws. header_skip_loop U (map g lines) r (i + 2) ws
        = header_skip_loop U lines r (i + 2) ws"
      by (rule less) (use True in auto)
    show ?thesis
      apply (subst header_skip_loop.simps [of U "map g lines"])
      apply (subst header_skip_loop.simps [of U lines r i])
      using True
      apply (auto simp add: py_get_map g IH1 IH2 split: sum.splits)
      done
  qed
qed

lemma header_skip_map:
  assumes g: "\<And>l. strip U (g l) = strip U l"
  shows "extract_with_header_skip U (map g lines) r = extract_with_header_skip U lines r"
  by (simp add: extract_with_header_skip_def find_start_idx_map [OF g]
      header_skip_loop_map [OF g] split: sum.splits)

lemma py_range_nat: "py_range (int a) (int a + int n) = map int [a..<a + n]"
proof (induction n)
  case 0
  then show ?case by (simp add: py_range_def)
next
  case (Suc n)
  have "[int a..int a + int (Suc n) - 1] = [int a..int a + int n - 1] @ [int a + int n]"
    using upto_rec2 [of "int a" "int a + int n"] by simp
  then show ?case
    using Suc by (simp add: py_range_def)
qed

lemma py_range_window:
  "py_range 50 (min b (int len - k)) = map int [50..<nat (min b (int len - k))]"
proof (cases "50 \<le> min b (int len - k)")
  case True
  then obtain n where n: "min b (int len - k) = 50 + int n"
    by (metis zle_iff_zadd)
  then show ?thesis
    using py_range_nat [of 50 n] by (simp add: nat_add_distrib)
next
  case False
  then have lt: "min b (int len - k) < 50" by (auto simp: min_def)
  then have "[50..min b (int len - k) - 1] = []" by simp
  moreover have "[50..<nat (min b (int len - k))] = []" using lt by simp
  ultimately show ?thesis by (simp only: py_range_def list.map)
qed

lemma range_filter:
  "filter (\<lambda>i. i + k < len \<and> P i) [a..<b] = filter P [a..<min b (len - k)]"
proof (induction b)
  case 0
  then show ?case by simp
next
  case (Suc b)
  show ?case
  proof (cases "Suc b \<le> len - k")
    case True
    then have "\<forall>i \<in> set [a..<Suc b]. i + k < len" by auto
    then have "filter (\<lambda>i. i + k < len \<and> P i) [a..<Suc b] = filter P [a..<Suc b]"
      by (intro filter_cong) auto
    then show ?thesis using True by (simp add: min_def)
  next
    case False
    then have m: "min (Suc b) (len - k) = min b (len - k)" by (simp add: min_def)
    have "\<not> (b + k < len)" using False by auto
    then show ?thesis
      using Suc unfolding m by (cases "a \<le> b") auto
  qed
qed

lemma multiline_loop_count:
  "\<forall>i \<in> set idxs. i + 2 < length lines \<Longrightarrow> n < 5 \<Longrightarrow>
   multiline_loop U lines (map int idxs) n =
     Inr (5 \<le> n + length (filter (\<lambda>i. multiline_indicator U (strip U (lines ! i))
                (strip U (lines ! (i + 1))) (strip U (lines ! (i + 2)))) idxs))"
proof (induction idxs arbitrary: n)
  case Nil
  then show ?case by simp
next
  case (Cons i idxs)
  have g: "py_get lines (int i) = Inr (lines ! i)" "py_get lines (int i + 1) = Inr (lines ! (i + 1))"
    "py_get lines (int i + 2) = Inr (lines ! (i + 2))"
    using Cons.prems(1) by (simp_all add: py_get_in nat_add_distrib)
  show ?case
    using Cons.prems Cons.IH by (auto simp: g Let_def)
qed

lemma simple_loop_count:
  "\<forall>i \<in> set idxs. i + 1 < length lines \<Longrightarrow> n < 3 \<Longrightarrow>
   simple_loop U lines (map int idxs) n =
     Inr (3 \<le> n + length (filter (\<lambda>i. simple_pattern_line U (strip U (lines ! i))
                (strip U (lines ! (i + 1)))) idxs))"
proof (induction idxs arbitrary: n)
  case Nil
  then show ?case by simp
next
  case (Cons i idxs)
  have g: "py_get lines (int i) = Inr (lines ! i)" "py_get lines (int i + 1) = Inr (lines ! (i + 1))"
    using Cons.prems(1) by (simp_all add: py_get_in nat_add_distrib)
  show ?case
    using Cons.prems Cons.IH by (auto simp: g Let_def)
qed

lemma window_nat: "nat (min (int b) (int len - int k)) = min b (len - k)"
  by (simp add: min_def) linarith


lemma detect_multiline_count:
  "detect_multiline_format U lines =
     Inr (5 \<le> length (filter (\<lambda>i. i + 2 < length lines
              \<and> multiline_indicator U (strip U (lines ! i)) (strip U (lines ! (i + 1)))
                   (strip U (lines ! (i + 2)))) [50..<150]))"
proof -
  let ?Q = "\<lambda>i. multiline_indicator U (strip U (lines ! i)) (strip U (lines ! (i + 1)))
                   (strip U (lines ! (i + 2)))"
  have r: "py_range 50 (min 150 (int (length lines) - 2)) = map int [50..<min 150 (length lines - 2)]"
    using py_range_window [of 150 "length lines" 2] window_nat [of 150 "length lines" 2] by simp
  have "multiline_loop U lines (map int [50..<min 150 (length lines - 2)]) 0 =
     Inr (5 \<le> 0 + length (filter ?Q [50..<min 150 (length lines - 2)]))"
    by (rule multiline_loop_count) (auto simp del: upt_rec_numeral)
  then have a: "detect_multiline_format U lines =
      Inr (5 \<le> length (filter ?Q [50..<min 150 (length lines - 2)]))"
    by (simp add: detect_multiline_format_def r del: upt_rec_numeral)
  have b: "filter (\<lambda>i. i + 2 < length lines \<and> ?Q i) [50..<150]
      = filter ?Q [50..<min 150 (length lines - 2)]"
    by (rule range_filter)
  show ?thesis unfolding b by (rule a)
qed

lemma detect_simple_count:
  "detect_simple_format U lines =
     Inr (\<not> list_ex (\<lambda>line. 47 \<in> set line \<and> 60 \<in> set line \<and> 62 \<in> set line) (take 200 lines)
          \<and> 3 \<le> length (filter (\<lambda>i. i + 1 < length lines
              \<and> simple_pattern_line U (strip U (lines ! i)) (strip U (lines ! (i + 1))))
                [50..<400]))"
proof -
  let ?Q = "\<lambda>i. simple_pattern_line U (strip U (lines ! i)) (strip U (lines ! (i + 1)))"
  have r: "py_range 50 (min 400 (int (length lines) - 1)) = map int [50..<min 400 (length lines - 1)]"
    using py_range_window [of 400 "length lines" 1] window_nat [of 400 "length lines" 1] by simp
  have "simple_loop U lines (map int [50..<min 400 (length lines - 1)]) 0 =
     Inr (3 \<le> 0 + length (filter ?Q [50..<min 400 (length lines - 1)]))"
    by (rule simple_loop_count) (auto simp del: upt_rec_numeral)
  then have a: "detect_simple_format U lines =
     Inr (\<not> list_ex (\<lambda>line. 47 \<in> set line \<and> 60 \<in> set line \<and> 62 \<in> set line) (take 200 lines)
          \<and> 3 \<le> length (filter ?Q [50..<min 400 (length lines - 1)]))"
    by (simp add: detect_simple_format_def r Let_def del: upt_rec_numeral)
  have b: "filter (\<lambda>i. i + 1 < length lines \<and> ?Q i) [50..<400]
      = filter ?Q [50..<min 400 (length lines - 1)]"
    by (rule range_filter)
  show ?thesis unfolding b by (rule a)
qed

lemma strip_by_hd: "strip_by P s = x # xs \<Longrightarrow> \<not> P x"
proof -
  assume a: "strip_by P s = x # xs"
  let ?t = "dropWhile P s"
  have "rev ?t = takeWhile P (rev ?t) @ dropWhile P (rev ?t)" by simp
  then have "?t = rev (dropWhile P (rev ?t)) @ rev (takeWhile P (rev ?t))"
    by (metis rev_append rev_rev_ident)
  then have "?t = (x # xs) @ rev (takeWhile P (rev ?t))"
    using a by (simp add: strip_by_def)
  then obtain rest where r: "dropWhile P s = x # rest"
    by (metis append_Cons)
  then show ?thesis
    using hd_dropWhile [of P s] by (metis list.sel(1) list.distinct(1))
qed

lemma strip_no_leading_space:
  "\<not> startswith (strip U l) [32]" "\<not> startswith (strip U l) [9]"
proof -
  have "py_isspace U 32" "py_isspace U 9" by (simp_all add: py_isspace_def)
  then show "\<not> startswith (strip U l) [32]" "\<not> startswith (strip U l) [9]"
    using strip_by_hd [of "py_isspace U" l]
    by (cases "strip U l"; auto simp: strip_def)+
qed

lemma simple_pattern_line_claimed:
  "(i + 1 < length lines
     \<and> simple_pattern_line U (strip U (lines ! i)) (strip U (lines ! (i + 1))))
   = (claimed_simple_line U lines i \<and> \<not> endswith (strip U (lines ! i)) [58])"
  using strip_no_leading_space [of U "lines ! i"]
  by (auto simp: simple_pattern_line_def claimed_simple_line_def Let_def)

lemma multiline_triple_indicator:
  "(i + 2 < length lines
     \<and> multiline_indicator U (strip U (lines ! i)) (strip U (lines ! (i + 1)))
          (strip U (lines ! (i + 2))))
   = multiline_triple U lines i"
  by (auto simp: multiline_indicator_def multiline_triple_def Let_def)

lemma collect_map: "collect f (map g xs) = collect (\<lambda>x. f (g x)) xs"
  by (induction xs) (auto split: sum.splits)

lemma script_detection_map:
  assumes g: "\<And>l. strip U (g l) = strip U l"
  shows "extract_words_by_script_detection U (map g lines) r sc
       = extract_words_by_script_detection U lines r sc"
proof -
  have "\<And>l. script_line_words U r sc (g l) = script_line_words U r sc l"
    by (simp add: script_line_words_def g)
  then show ?thesis
    by (simp add: extract_words_by_script_detection_def collect_map)
qed

lemma simple_loop_map:
  assumes g: "\<And>l. strip U (g l) = strip U l"
  shows "simple_loop U (map g lines) idxs n = simple_loop U lines idxs n"
  by (induction idxs arbitrary: n) (auto simp: py_get_map g Let_def split: sum.splits)

lemma rstrip_nl_mem: "c \<noteq> 10 \<Longrightarrow> c \<in> set (rstrip_nl l) \<longleftrightarrow> c \<in> set l"
proof -
  assume c: "c \<noteq> 10"
  obtain k where k: "l = rstrip_nl l @ replicate k 10"
    using rstrip_nl_decomp by blast
  have "c \<in> set (rstrip_nl l @ replicate k 10) \<longleftrightarrow> c \<in> set (rstrip_nl l)"
    using c by auto
  then show ?thesis using k by simp
qed

lemma detect_simple_rstrip_nl:
  "detect_simple_format U (map rstrip_nl lines) = detect_simple_format U lines"
proof -
  have "list_ex (\<lambda>line. 47 \<in> set line \<and> 60 \<in> set line \<and> 62 \<in> set line)
          (take 200 (map rstrip_nl lines))
      = list_ex (\<lambda>line. 47 \<in> set line \<and> 60 \<in> set line \<and> 62 \<in> set line) (take 200 lines)"
    by (simp add: take_map list_ex_iff rstrip_nl_mem)
  then show ?thesis
    by (simp add: detect_simple_format_def simple_loop_map [OF strip_rstrip_nl])
qed

lemma simple_words_map:
  assumes g: "\<And>l. strip U (g l) = strip U l"
  shows "extract_simple_format_words U (map g lines) r = extract_simple_format_words U lines r"
proof (induction "length lines" arbitrary: lines rule: less_induct)
  case less
  show ?case
  proof (cases lines)
    case Nil
    then show ?thesis by simp
  next
    case (Cons l ls)
    have IH1: "extract_simple_format_words U (map g ls) r = extract_simple_format_words U ls r"
      by (rule less) (simp add: Cons)
    have IH2: "extract_simple_format_words U (map g (drop 1 ls)) r
        = extract_simple_format_words U (drop 1 ls) r"
      by (rule less) (simp add: Cons)
    have n: "strip U (case map g ls of [] \<Rightarrow> [] | n # _ \<Rightarrow> n)
        = strip U (case ls of [] \<Rightarrow> [] | n # _ \<Rightarrow> n)"
      by (cases ls) (simp_all add: g)
    show ?thesis
      using IH1 IH2 n by (simp add: Cons g drop_map del: drop_Suc_Cons)
  qed
qed

lemma gzip_on_lines:
  "extract_words_from_gzip_content U lines r dz =
     (case detect_target_language_script lines 500 of
        Inl e \<Rightarrow> Inl e
      | Inr target_script \<Rightarrow>
         if target_script \<noteq> Latin
         then extract_words_by_script_detection U lines r target_script
         else
           (case detect_alternating_pattern U lines of
              Inl e \<Rightarrow> Inl e
            | Inr pat \<Rightarrow>
               if pat \<noteq> Unknown then
                 extract_words_with_pattern_detection U lines
                   (if dz \<and> pat = Target_source then (if r = Source then Target else Source) else r)
                   pat
               else
                 (case detect_simple_format U lines of
                    Inl e \<Rightarrow> Inl e
                  | Inr simple_format \<Rightarrow>
                     (case detect_multiline_format U lines of
                        Inl e \<Rightarrow> Inl e
                      | Inr multiline_format \<Rightarrow>
                         if simple_format
                         then Inr (extract_simple_format_words U lines r)
                         else if multiline_format
                         then extract_multiline_format_words U lines r
                         else extract_with_header_skip U lines r))))"
proof -
  have sc: "\<And>s. s \<in> set [Arabic, Cyrillic, CJK, Devanagari] \<longleftrightarrow> s \<noteq> Latin"
    by (case_tac s) auto
  have pt: "\<And>p. p \<in> set [Source_target, Target_source] \<longleftrightarrow> p \<noteq> Unknown"
    by (case_tac p) auto
  show ?thesis
    unfolding extract_words_from_gzip_content_def Let_def sc pt
      detect_script_rstrip_nl detect_alternating_map [OF strip_rstrip_nl]
      pattern_detection_map [OF strip_rstrip_nl] script_detection_map [OF strip_rstrip_nl]
      detect_simple_rstrip_nl detect_multiline_map [OF strip_rstrip_nl]
      simple_words_map [OF strip_rstrip_nl] multiline_words_map [OF strip_rstrip_nl]
      header_skip_map [OF strip_rstrip_nl]
    by (auto split: sum.splits)
qed

lemma script_count_append:
  "script_count sc (a @ b) = script_count sc a + script_count sc b"
  by (simp add: script_count_def)

lemma script_count_take_mono:
  "m \<le> n \<Longrightarrow> script_count sc (take m ls) \<le> script_count sc (take n ls)"
proof -
  assume "m \<le> n"
  then have "take n ls = take m ls @ take (n - m) (drop m ls)"
    by (metis le_add_diff_inverse take_add)
  then show ?thesis by (simp add: script_count_append)
qed

lemma detect_script_dominant:
  assumes "s \<noteq> Latin" "0 < script_count s (take (nat n) lines)"
    and "\<forall>t. t \<noteq> Latin \<and> t \<noteq> s \<longrightarrow>
           script_count t (take (nat n) lines) < script_count s (take (nat n) lines)"
  shows "detect_target_language_script lines n = Inr s"
proof -
  obtain r where r: "detect_target_language_script lines n = Inr r"
     "r = Latin \<longleftrightarrow> (\<forall>sc. sc \<noteq> Latin \<longrightarrow> script_count sc (take (nat n) lines) = 0)"
     "r \<noteq> Latin \<longrightarrow> (\<forall>sc. sc \<noteq> Latin \<longrightarrow> script_count sc (take (nat n) lines)
                                   \<le> script_count r (take (nat n) lines))"
    using detect_script_result [of lines n] by blast
  have "r \<noteq> Latin" using r(2) assms(1,2) by auto
  have "r = s"
  proof (rule ccontr)
    assume "r \<noteq> s"
    then have "script_count r (take (nat n) lines) < script_count s (take (nat n) lines)"
      using assms(3) \<open>r \<noteq> Latin\<close> by blast
    moreover have "script_count s (take (nat n) lines) \<le> script_count r (take (nat n) lines)"
      using r(3) \<open>r \<noteq> Latin\<close> assms(1) by blast
    ultimately show False by simp
  qed
  then show ?thesis using r(1) by simp
qed

lemma unpack_slice:
  "n + 1 + 8 \<le> length d \<Longrightarrow>
   unpack_II (slice d (n + 1) (n + 1 + 8)) =
     Some (be32 (slice d (n + 1) (n + 1 + 4)), be32 (slice d (n + 1 + 4) (n + 1 + 8)))"
proof -
  have a: "slice d (n + 1) (n + 1 + 8) = take 8 (drop (n + 1) d)"
    by (simp add: slice_def)
  have b: "slice d (n + 1) (n + 1 + 4) = take 4 (drop (n + 1) d)"
    by (simp add: slice_def)
  have c: "slice d (n + 1 + 4) (n + 1 + 8) = take 4 (drop (n + 1 + 4) d)"
    by (simp add: slice_def)
  assume "n + 1 + 8 \<le> length d"
  then show ?thesis
    unfolding a b c by (simp add: unpack_II_def drop_take add.commute)
qed

lemma find_null_ge: "find_null d pos = Some n \<Longrightarrow> pos \<le> n"
  by (auto simp: find_null_def Let_def split: if_splits)

lemma parse_index_records:
  "fst (parse_index U idx_data dict_data pos entries) =
   entries @ map (record_entry U dict_data)
               (filter (record_in_bounds dict_data) (index_records idx_data pos))"
proof (induction "length idx_data - pos" arbitrary: pos entries rule: less_induct)
  case less
  show ?case
  proof (cases "pos < length idx_data")
    case False
    then show ?thesis
      by (simp add: parse_index.simps [of _ _ _ pos] index_records.simps [of _ pos])
  next
    case True
    show ?thesis
    proof (cases "find_null idx_data pos")
      case None
      then show ?thesis
        using True by (simp add: parse_index.simps [of _ _ _ pos] index_records.simps [of _ pos])
    next
      case (Some np)
      have ge: "pos \<le> np" using Some by (rule find_null_ge)
      show ?thesis
      proof (cases "np + 1 + 8 > length idx_data")
        case True
        then show ?thesis
          using \<open>pos < length idx_data\<close> Some
          by (simp add: parse_index.simps [of _ _ _ pos] index_records.simps [of _ pos])
      next
        case False
        have IH: "\<And>es. fst (parse_index U idx_data dict_data (np + 1 + 8) es) =
            es @ map (record_entry U dict_data)
               (filter (record_in_bounds dict_data) (index_records idx_data (np + 1 + 8)))"
          by (rule less) (use ge True in arith)
        have up: "unpack_II (slice idx_data (np + 1) (np + 1 + 8)) =
            Some (be32 (slice idx_data (np + 1) (np + 1 + 4)),
                  be32 (slice idx_data (np + 1 + 4) (np + 1 + 8)))"
          by (rule unpack_slice) (use False in arith)
        show ?thesis
          apply (subst parse_index.simps)
          apply (subst index_records.simps)
          using True Some False
          apply (simp only: if_True if_False option.case up prod.case)
          apply (simp add: record_entry_def record_in_bounds_def slice_def IH [simplified])
          done
      qed
    qed
  qed
qed

lemma recover_index_records:
  "recover_index U idx_data r existing pos words =
   words @ (if r = Source
            then filter (is_valid_word U)
                   (map clean_word (filter (\<lambda>w. w \<notin> existing)
                      (map (\<lambda>rc. u_decode U (fst rc)) (index_records idx_data pos))))
            else [])"
proof (induction "length idx_data - pos" arbitrary: pos words rule: less_induct)
  case less
  show ?case
  proof (cases "pos < length idx_data")
    case False
    then show ?thesis
      by (simp add: recover_index.simps [of _ _ _ _ pos] index_records.simps [of _ pos])
  next
    case True
    show ?thesis
    proof (cases "find_null idx_data pos")
      case None
      then show ?thesis
        using True
        by (simp add: recover_index.simps [of _ _ _ _ pos] index_records.simps [of _ pos])
    next
      case (Some np)
      have ge: "pos \<le> np" using Some by (rule find_null_ge)
      show ?thesis
      proof (cases "np + 1 + 8 > length idx_data")
        case True
        then show ?thesis
          using \<open>pos < length idx_data\<close> Some
          by (simp add: recover_index.simps [of _ _ _ _ pos] index_records.simps [of _ pos])
      next
        case False
        have IH: "\<And>ws. recover_index U idx_data r existing (np + 1 + 8) ws =
            ws @ (if r = Source
              then filter (is_valid_word U)
                   (map clean_word (filter (\<lambda>w. w \<notin> existing)
                      (map (\<lambda>rc. u_decode U (fst rc)) (index_records idx_data (np + 1 + 8)))))
              else [])"
          by (rule less) (use ge True in arith)
        show ?thesis
          apply (subst recover_index.simps)
          apply (subst index_records.simps)
          using True Some False
          apply (simp only: if_True if_False option.case Let_def)
          apply (simp add: IH [simplified])
          done
      qed
    qed
  qed
qed


lemma entry_words_Source:
  "entry_words U Source entries = filter (is_valid_word U) (map (\<lambda>e. clean_word (fst e)) entries)"
  by (induction entries) (auto simp: entry_words_def Let_def)


lemma stardict_source_words:
  "parse_index U idx_data dict_data 0 [] = (entries, pos) \<Longrightarrow>
   fst (extract_words_from_stardict U idx_data dict_data Source) =
     (if length entries < pos div 12
      then filter (is_valid_word U)
             (map clean_word (filter (\<lambda>w. w \<notin> set (map fst entries))
                (map (\<lambda>rc. u_decode U (fst rc)) (index_records idx_data 0))))
      else [])
     @ filter (is_valid_word U) (map (\<lambda>e. clean_word (fst e)) entries)"
  by (simp add: extract_words_from_stardict_def recover_index_records entry_words_Source Let_def)


subsection \<open>Evaluation of the sample index\<close>

lemma punct_set:
  "c \<in> set punctuation \<longleftrightarrow>
     (33 \<le> c \<and> c < 48) \<or> (58 \<le> c \<and> c < 65) \<or> (91 \<le> c \<and> c < 97) \<or> (123 \<le> c \<and> c < 127)"
  by (auto simp: punctuation_def simp del: upt_rec_numeral)

lemma denylist_eval:
  "denylist = [[65,68,78],[65,82,78],[65,84,80],[65,68,83,76],[85,83,66],[68,86,68],
   [65,65,79],[65,66,80],[65,70,73],[65,77,80,65],[65,67,83],[65,78,80,69],[65,84,66]]"
  by (simp add: denylist_def asc_def)

lemma sample_records:
  "index_records sample_idx 0 = [(hello_bytes, 100, 5), ([119, 111, 114, 108, 100], 2, 50)]"
  apply (subst index_records.simps)
  apply (simp add: sample_idx_def find_null_def slice_def be32_def hello_bytes_def)
  apply (subst index_records.simps)
  apply (simp add: sample_idx_def find_null_def slice_def be32_def)
  apply (subst index_records.simps)
  apply (simp add: sample_idx_def find_null_def slice_def be32_def)
  done

lemma sample_parse:
  "parse_index ascii_ucd sample_idx sample_dict 0 [] = ([(world, [99, 100, 101, 102])], 28)"
  apply (subst parse_index.simps)
  apply (simp add: sample_idx_def sample_dict_def find_null_def slice_def be32_def unpack_II_def)
  apply (subst parse_index.simps)
  apply (simp add: sample_idx_def sample_dict_def find_null_def slice_def be32_def unpack_II_def)
  apply (subst parse_index.simps)
  apply (simp add: sample_idx_def sample_dict_def find_null_def slice_def be32_def unpack_II_def
      ascii_ucd_def world_def)
  done

lemma clean_hello: "clean_word hello = hello"
  by (simp add: clean_word_def strip_chars_def strip_by_def hello_def punct_set)


lemma sample_decode: "u_decode ascii_ucd hello_bytes = hello"
  by (simp add: ascii_ucd_def hello_bytes_def hello_def)


lemma hello_upper: "py_upper ascii_ucd hello = [72, 69, 76, 76, 79]"
  by (simp add: py_upper_def is_ascii_def hello_def ascii_lower_c_def)


lemma hello_strip: "strip ascii_ucd hello = hello"
  by (simp add: strip_def strip_by_def hello_def py_isspace_def)


lemma hello_valid: "is_valid_word ascii_ucd hello"
  apply (simp add: is_valid_word_def hello_strip hello_upper denylist_eval)
  apply (simp add: hello_def py_isalnum_def ascii_lower_c_def ascii_upper_c_def ascii_digit_c_def)
  done


lemma casa_line_eval:
  "casa_line = [99, 97, 115, 97, 32, 47, 712, 107, 97, 115, 97, 47, 32, 60, 110, 62]"
  by (simp add: casa_line_def asc_def)

lemma house_line_eval: "house_line = [104, 111, 117, 115, 101]"
  by (simp add: house_line_def asc_def)

lemma strip_Nil: "strip U [] = []"
  by (simp add: strip_def strip_by_def)

lemma strip_casa: "strip U casa_line = casa_line"
  by (simp add: strip_def strip_by_def casa_line_eval py_isspace_def)

lemma strip_house: "strip U house_line = house_line"
  by (simp add: strip_def strip_by_def house_line_eval py_isspace_def)

lemma markers_casa: "has_pronunciation_markers casa_line"
  by (simp add: has_pronunciation_markers_def casa_line_eval ipa_marker_search_def
      ipa_marker_chars_def)

lemma markers_house: "\<not> has_pronunciation_markers house_line"
  by (simp add: has_pronunciation_markers_def house_line_eval)

lemma latin_house: "isalpha U (normalize_word house_line)"
  by (simp add: isalpha_def normalize_word_def normalize_chars_def house_line_eval
      py_isalpha_c_def ascii_lower_c_def ascii_upper_c_def)

lemma alternating_headers_eval:
  "alternating_headers = [[48,48,45,100,97,116,97,98,97,115,101], [65,117,116,104,111,114,58],
     [83,105,122,101,58]]"
  by (simp add: alternating_headers_def asc_def)

lemma no_alt_header_casa: "\<not> list_ex (\<lambda>header. contains header casa_line) alternating_headers"
  by (simp add: alternating_headers_eval casa_line_eval)

lemma no_alt_header_house: "\<not> list_ex (\<lambda>header. contains header house_line) alternating_headers"
  by (simp add: alternating_headers_eval house_line_eval)

lemma sample_casa_house: "alternating_sample U casa_line house_line = [Source_target]"
  by (simp add: alternating_sample_def markers_casa markers_house latin_house)

lemma sample_house_casa: "alternating_sample U house_line casa_line = [Target_source]"
  by (simp add: alternating_sample_def markers_casa markers_house latin_house)

lemma casa_word_eval: "casa_word = [99, 97, 115, 97]"
  by (simp add: casa_word_def asc_def)

lemma header_prefixes_eval:
  "header_prefixes = [[35], [48,48,45,100,97,116,97,98,97,115,101], [65,117,116,104,111,114,58],
     [77,97,105,110,116,97,105,110,101,114,58], [69,100,105,116,105,111,110,58],
     [83,105,122,101,58], [80,117,98,108,105,115,104,101,114,58],
     [65,118,97,105,108,97,98,105,108,105,116,121,58], [67,111,112,121,114,105,103,104,116],
     [84,104,105,115,32,112,114,111,103,114,97,109], [80,117,98,108,105,115,104,101,100],
     [73,68,35], [83,101,114,105,101,115,58], [67,104,97,110,103,101,108,111,103,58], [42],
     [78,111,116,101,115,58], [83,111,117,114,99,101,40,115,41,58],
     [68,97,116,97,98,97,115,101,32,83,116,97,116,117,115,58],
     [84,104,101,32,80,114,111,106,101,99,116,58]]"
  by (simp add: header_prefixes_def asc_def)

lemma header_keywords_eval:
  "header_keywords = [[102,114,101,101,100,105,99,116], [100,105,99,116,105,111,110,97,114,121],
     [108,105,99,101,110,115,101], [99,111,112,121,114,105,103,104,116],
     [97,118,97,105,108,97,98,108,101], [102,111,117,110,100,97,116,105,111,110],
     [118,101,114,115,105,111,110], [118,101,114,46], [99,111,110,118,101,114,116,101,100],
     [105,109,112,111,114,116,101,100], [109,97,107,101,102,105,108,101],
     [105,110,105,116,105,97,108], [109,105,99,104,97,101,108,32,98,117,110,107],
     [112,105,111,116,114,32,98,97,324,115,107,105],
     [99,111,110,118,101,114,115,105,111,110,32,111,102,32,116,101,105],
     [116,111,111,108,115,47,120,115,108],
     [109,97,110,117,97,108,32,99,108,101,97,110,45,117,112], [115,116,97,98,108,101]]"
  by (simp add: header_keywords_def asc_def)

lemma lower_house: "py_lower U house_line = house_line"
  by (simp add: py_lower_def is_ascii_def house_line_eval ascii_upper_c_def)

lemma lower_casa: "u_lower U casa_line = casa_line \<Longrightarrow> py_lower U casa_line = casa_line"
  by (simp add: py_lower_def is_ascii_def casa_line_eval)

lemma not_header_house: "\<not> is_header_line U house_line"
  unfolding is_header_line_def Let_def lower_house
  by (simp add: header_prefixes_eval header_keywords_eval house_line_eval)

lemma not_header_casa: "u_lower U casa_line = casa_line \<Longrightarrow> \<not> is_header_line U casa_line"
  unfolding is_header_line_def Let_def
  by (simp add: lower_casa) (simp add: header_prefixes_eval header_keywords_eval casa_line_eval)

lemma pos_tags_casa: "extract_pos_tags casa_line = [[110]]"
  by (simp add: casa_line_eval)

lemma pos_tags_house: "extract_pos_tags house_line = []"
  by (simp add: house_line_eval)

lemma base_types_n: "extract_base_pos_types U [110] = [[110]]"
  by (simp add: extract_base_pos_types_def strip_def strip_by_def py_isspace_def py_lower_def
      is_ascii_def ascii_upper_c_def base_pos_types_def asc_def)

lemma include_casa: "should_include_word_by_pos U casa_line POS_FILTERS"
  by (simp add: should_include_word_by_pos_def pos_tags_casa base_types_n POS_FILTERS_def asc_def)

lemma include_house: "should_include_word_by_pos U house_line POS_FILTERS"
  by (simp add: should_include_word_by_pos_def pos_tags_house POS_FILTERS_def)

lemma strip_casa_head: "strip U [99, 97, 115, 97, 32] = casa_word"
  by (simp add: strip_def strip_by_def py_isspace_def casa_word_eval)

lemma pron_word_casa: "extract_pronunciation_word U casa_line = Inr (Some casa_word)"
  apply (simp add: extract_pronunciation_word_def casa_line_eval py_get_def strip_casa_head)
  apply (simp add: casa_word_eval normalize_word_def normalize_chars_def isalpha_def
      py_isalpha_c_def py_isdigit_def ascii_lower_c_def ascii_upper_c_def ascii_digit_c_def)
  done

lemma strip_casa_word: "strip U casa_word = casa_word"
  by (simp add: strip_def strip_by_def py_isspace_def casa_word_eval)

lemma upper_casa_word: "py_upper U casa_word = [67, 65, 83, 65]"
  by (simp add: py_upper_def is_ascii_def casa_word_eval ascii_lower_c_def)

lemma valid_casa_word: "is_valid_word U casa_word"
  apply (simp add: is_valid_word_def strip_casa_word upper_casa_word denylist_eval)
  apply (simp add: casa_word_eval py_isalnum_def ascii_lower_c_def ascii_upper_c_def
      ascii_digit_c_def)
  done

lemma truthy_casa: "truthy_valid U (Some casa_word) = [casa_word]"
  using valid_casa_word [of U] by (simp add: truthy_valid_def casa_word_eval)

lemma pron_words_casa: "pronunciation_line_words U casa_line = Inr [casa_word]"
  by (simp add: pronunciation_line_words_def include_casa pron_word_casa truthy_casa)

lemma clean_house: "clean_word house_line = house_line"
  by (simp add: clean_word_def strip_chars_def strip_by_def house_line_eval punct_set)

lemma split_house: "split_ws U house_line = [house_line]"
  by (simp add: split_ws_def house_line_eval py_isspace_def)

lemma translation_house: "pair_translation_words U house_line = [house_line]"
  apply (simp add: pair_translation_words_def Let_def)
  apply (simp add: replace_char_def house_line_eval)
  apply (simp add: house_line_eval [symmetric] split_house clean_house latin_house)
  apply (simp add: house_line_eval)
  done

lemma translation_words_house: "translation_line_words U house_line = Inr [house_line]"
  by (simp add: translation_line_words_def include_house translation_house)

lemma py_get_pad:
  "int n \<le> i \<Longrightarrow> py_get (replicate n x @ ys) i = py_get ys (i - int n)"
  by (auto simp: py_get_def nth_append nat_diff_distrib)

lemma py_get_in_pad:
  "0 \<le> i \<Longrightarrow> i < int n \<Longrightarrow> py_get (replicate n x @ ys) i = Inr x"
  by (auto simp: py_get_def nth_append)

lemma concat_replicate_Nil: "concat (replicate n []) = []"
  by (induction n) auto

lemma detect_script_latin:
  "(\<forall>sc. sc \<noteq> Latin \<longrightarrow> script_count sc (take (nat n) lines) = 0) \<Longrightarrow>
   detect_target_language_script lines n = Inr Latin"
  using detect_script_result [of lines n] by auto

lemma length_casa_corpus: "length casa_corpus = 60"
  by (simp add: casa_corpus_def)

lemma casa_corpus_get:
  "py_get casa_corpus 50 = Inr casa_line" "py_get casa_corpus 51 = Inr house_line"
  "py_get casa_corpus 52 = Inr casa_line" "py_get casa_corpus 53 = Inr house_line"
  "py_get casa_corpus 54 = Inr casa_line" "py_get casa_corpus 55 = Inr house_line"
  "py_get casa_corpus 56 = Inr []" "py_get casa_corpus 57 = Inr []"
  "py_get casa_corpus 58 = Inr []" "py_get casa_corpus 59 = Inr []"
  by (simp_all add: casa_corpus_def py_get_pad) (simp_all add: py_get_def)

lemma casa_corpus_script: "detect_target_language_script casa_corpus 500 = Inr Latin"
proof (rule detect_script_latin, intro allI impI)
  fix sc :: script
  assume "sc \<noteq> Latin"
  have t: "take (nat 500) casa_corpus = casa_corpus"
    by (simp add: length_casa_corpus)
  have c: "concat casa_corpus
      = casa_line @ house_line @ casa_line @ house_line @ casa_line @ house_line"
    by (simp add: casa_corpus_def concat_replicate_Nil)
  have "filter (in_script sc) casa_line = []" "filter (in_script sc) house_line = []"
    using \<open>sc \<noteq> Latin\<close> by (cases sc; simp add: casa_line_eval house_line_eval)+
  then show "script_count sc (take (nat 500) casa_corpus) = 0"
    unfolding t script_count_def c by simp
qed

lemma lines_ne: "casa_line \<noteq> []" "house_line \<noteq> []"
  by (simp_all add: casa_line_eval house_line_eval)

lemma casa_corpus_alternating: "detect_alternating_pattern U casa_corpus = Inr Source_target"
proof -
  have r: "py_range 50 (min 200 (int (length casa_corpus) - 1))
      = [50, 51, 52, 53, 54, 55, 56, 57, 58]"
    by (simp add: length_casa_corpus py_range_def)
  have g: "py_get casa_corpus (50 + 1) = Inr house_line"
      "py_get casa_corpus (51 + 1) = Inr casa_line" "py_get casa_corpus (52 + 1) = Inr house_line"
      "py_get casa_corpus (53 + 1) = Inr casa_line" "py_get casa_corpus (54 + 1) = Inr house_line"
    using casa_corpus_get by simp_all
  have l: "alternating_loop U casa_corpus [50, 51, 52, 53, 54, 55, 56, 57, 58] []
      = Inr [Source_target, Target_source, Source_target, Target_source, Source_target]"
    by (simp add: casa_corpus_get g strip_casa strip_house no_alt_header_casa
        no_alt_header_house sample_casa_house sample_house_casa lines_ne Let_def
        del: One_nat_def)
  show ?thesis
    unfolding detect_alternating_pattern_def r l by simp
qed

lemma collect_append:
  "collect f (xs @ ys) =
     (case collect f xs of Inl e \<Rightarrow> Inl e
      | Inr a \<Rightarrow> (case collect f ys of Inl e \<Rightarrow> Inl e | Inr b \<Rightarrow> Inr (a @ b)))"
  by (induction xs) (auto split: sum.splits)

lemma collect_all_Nil: "\<forall>x \<in> set xs. f x = Inr [] \<Longrightarrow> collect f xs = Inr []"
  by (induction xs) auto

lemma pair_words_blank: "pattern_pair_words U r p [] l2 = Inr []" "pattern_pair_words U r p l1 [] = Inr []"
  by (simp_all add: pattern_pair_words_def)

lemma pair_at_padding:
  assumes "0 \<le> i" "i < int n" "i + 1 < int (length (replicate n [] @ ys))"
  shows "pattern_pair_at U (replicate n [] @ ys) r p i = Inr []"
proof -
  have a: "py_get (replicate n [] @ ys) i = Inr []"
    using assms by (simp add: py_get_in_pad)
  have b: "py_get (replicate n [] @ ys) (i + 1) = Inr ((replicate n [] @ ys) ! nat (i + 1))"
    by (rule py_get_in) (use assms in auto)
  show ?thesis
    unfolding pattern_pair_at_def a b by (simp add: strip_Nil pair_words_blank)
qed

lemma multiline_indicator_no:
  "\<not> multiline_indicator U house_line b c" "\<not> multiline_indicator U [] b c"
  "\<not> multiline_indicator U a b []" "\<not> multiline_indicator U casa_line house_line casa_line"
proof -
  have "length (split_ws U casa_line) \<le> 8"
    by (cases "u_isspace U 712") (simp_all add: split_ws_def casa_line_eval py_isspace_def)
  then show "\<not> multiline_indicator U casa_line house_line casa_line"
    by (simp add: multiline_indicator_def) (simp add: casa_line_eval)
qed (simp_all add: multiline_indicator_def house_line_eval)

lemma casa_corpus_multiline: "detect_multiline_format U casa_corpus = Inr False"
proof -
  have r: "py_range 50 (min 150 (int (length casa_corpus) - 2))
      = [50, 51, 52, 53, 54, 55, 56, 57]"
    by (simp add: length_casa_corpus py_range_def)
  have g: "py_get casa_corpus (50 + 1) = Inr house_line"
      "py_get casa_corpus (51 + 1) = Inr casa_line" "py_get casa_corpus (52 + 1) = Inr house_line"
      "py_get casa_corpus (53 + 1) = Inr casa_line" "py_get casa_corpus (54 + 1) = Inr house_line"
      "py_get casa_corpus (55 + 1) = Inr []" "py_get casa_corpus (56 + 1) = Inr []"
      "py_get casa_corpus (57 + 1) = Inr []"
      "py_get casa_corpus (50 + 2) = Inr casa_line"
      "py_get casa_corpus (51 + 2) = Inr house_line" "py_get casa_corpus (52 + 2) = Inr casa_line"
      "py_get casa_corpus (53 + 2) = Inr house_line" "py_get casa_corpus (54 + 2) = Inr []"
      "py_get casa_corpus (55 + 2) = Inr []" "py_get casa_corpus (56 + 2) = Inr []"
      "py_get casa_corpus (57 + 2) = Inr []"
    using casa_corpus_get by simp_all
  show ?thesis
    unfolding detect_multiline_format_def r
    by (simp add: casa_corpus_get g strip_casa strip_house strip_Nil multiline_indicator_no
        del: One_nat_def)
qed

lemma casa_pair_words:
  assumes "u_lower U casa_line = casa_line"
  shows "pattern_pair_words U Source Source_target casa_line house_line = Inr [casa_word]"
    "pattern_pair_words U Target Source_target casa_line house_line = Inr [house_line]"
    "pattern_pair_words U r Source_target house_line casa_line = Inr []"
  using not_header_casa [OF assms] not_header_house [of U]
  by (simp_all add: pattern_pair_words_def lines_ne markers_casa markers_house pron_words_casa
      translation_words_house)

lemma casa_corpus_pairs:
  "collect (pattern_pair_at U casa_corpus r p) (py_range 0 (int (length casa_corpus) - 1))
     = collect (pattern_pair_at U casa_corpus r p) [50, 51, 52, 53, 54, 55, 56, 57, 58]"
proof -
  have "[0..58] = [0..50 - 1] @ [50..58::int]"
    by (rule upto_split1) simp_all
  then have s: "py_range 0 (int (length casa_corpus) - 1) = [0..49] @ [50, 51, 52, 53, 54, 55, 56, 57, 58]"
    by (simp add: length_casa_corpus py_range_def)
  have "\<forall>i \<in> set [0..49]. pattern_pair_at U casa_corpus r p i = Inr []"
    unfolding casa_corpus_def
    by (intro ballI pair_at_padding) auto
  then have "collect (pattern_pair_at U casa_corpus r p) [0..49] = Inr []"
    by (rule collect_all_Nil)
  then show ?thesis
    unfolding s collect_append by (simp split: sum.splits)
qed

lemma casa_corpus_words:
  assumes "u_lower U casa_line = casa_line"
  shows "extract_words_with_pattern_detection U casa_corpus Source Source_target
           = Inr [casa_word, casa_word, casa_word]"
    "extract_words_with_pattern_detection U casa_corpus Target Source_target
           = Inr [house_line, house_line, house_line]"
proof -
  have g: "py_get casa_corpus (50 + 1) = Inr house_line"
      "py_get casa_corpus (51 + 1) = Inr casa_line" "py_get casa_corpus (52 + 1) = Inr house_line"
      "py_get casa_corpus (53 + 1) = Inr casa_line" "py_get casa_corpus (54 + 1) = Inr house_line"
      "py_get casa_corpus (55 + 1) = Inr []" "py_get casa_corpus (56 + 1) = Inr []"
      "py_get casa_corpus (57 + 1) = Inr []" "py_get casa_corpus (58 + 1) = Inr []"
    using casa_corpus_get by simp_all
  show "extract_words_with_pattern_detection U casa_corpus Source Source_target
           = Inr [casa_word, casa_word, casa_word]"
    unfolding extract_words_with_pattern_detection_def casa_corpus_multiline casa_corpus_pairs
    by (simp add: pattern_pair_at_def casa_corpus_get g strip_casa strip_house strip_Nil
        casa_pair_words [OF assms] pair_words_blank del: One_nat_def)
  show "extract_words_with_pattern_detection U casa_corpus Target Source_target
           = Inr [house_line, house_line, house_line]"
    unfolding extract_words_with_pattern_detection_def casa_corpus_multiline casa_corpus_pairs
    by (simp add: pattern_pair_at_def casa_corpus_get g strip_casa strip_house strip_Nil
        casa_pair_words [OF assms] pair_words_blank del: One_nat_def)
qed

lemma length_ts_corpus: "length ts_corpus = 54"
  by (simp add: ts_corpus_def)

lemma ts_corpus_get:
  "py_get ts_corpus 50 = Inr house_line" "py_get ts_corpus 51 = Inr casa_line"
  "py_get ts_corpus 52 = Inr house_line" "py_get ts_corpus 53 = Inr casa_line"
  by (simp_all add: ts_corpus_def py_get_pad) (simp_all add: py_get_def)

lemma ts_corpus_script: "detect_target_language_script ts_corpus 500 = Inr Latin"
proof (rule detect_script_latin, intro allI impI)
  fix sc :: script
  assume "sc \<noteq> Latin"
  have t: "take (nat 500) ts_corpus = ts_corpus"
    by (simp add: length_ts_corpus)
  have c: "concat ts_corpus = house_line @ casa_line @ house_line @ casa_line"
    by (simp add: ts_corpus_def concat_replicate_Nil)
  have "filter (in_script sc) casa_line = []" "filter (in_script sc) house_line = []"
    using \<open>sc \<noteq> Latin\<close> by (cases sc; simp add: casa_line_eval house_line_eval)+
  then show "script_count sc (take (nat 500) ts_corpus) = 0"
    unfolding t script_count_def c by simp
qed

lemma ts_corpus_alternating: "detect_alternating_pattern U ts_corpus = Inr Target_source"
proof -
  have r: "py_range 50 (min 200 (int (length ts_corpus) - 1)) = [50, 51, 52]"
    by (simp add: length_ts_corpus py_range_def)
  have l: "alternating_loop U ts_corpus [50, 51, 52] []
      = Inr [Target_source, Source_target, Target_source]"
    by (simp add: ts_corpus_get strip_casa strip_house no_alt_header_casa
        no_alt_header_house sample_casa_house sample_house_casa lines_ne Let_def
        del: One_nat_def)
  show ?thesis
    unfolding detect_alternating_pattern_def r l by simp
qed

lemma ts_corpus_multiline: "detect_multiline_format U ts_corpus = Inr False"
proof -
  have r: "py_range 50 (min 150 (int (length ts_corpus) - 2)) = [50, 51]"
    by (simp add: length_ts_corpus py_range_def)
  show ?thesis
    unfolding detect_multiline_format_def r
    by (simp add: ts_corpus_get strip_casa strip_house strip_Nil multiline_indicator_no
        del: One_nat_def)
qed

lemma ts_pair_words:
  assumes "u_lower U casa_line = casa_line"
  shows "pattern_pair_words U Target Target_source casa_line house_line = Inr [casa_word]"
    "pattern_pair_words U Source Target_source casa_line house_line = Inr [house_line]"
    "pattern_pair_words U r Target_source house_line casa_line = Inr []"
  using not_header_casa [OF assms] not_header_house [of U]
  by (simp_all add: pattern_pair_words_def lines_ne markers_casa markers_house pron_words_casa
      translation_words_house)

lemma ts_corpus_pairs:
  "collect (pattern_pair_at U ts_corpus r p) (py_range 0 (int (length ts_corpus) - 1))
     = collect (pattern_pair_at U ts_corpus r p) [50, 51, 52]"
proof -
  have "[0..52] = [0..50 - 1] @ [50..52::int]"
    by (rule upto_split1) simp_all
  then have s: "py_range 0 (int (length ts_corpus) - 1) = [0..49] @ [50, 51, 52]"
    by (simp add: length_ts_corpus py_range_def)
  have "\<forall>i \<in> set [0..49]. pattern_pair_at U ts_corpus r p i = Inr []"
    unfolding ts_corpus_def
    by (intro ballI pair_at_padding) auto
  then have "collect (pattern_pair_at U ts_corpus r p) [0..49] = Inr []"
    by (rule collect_all_Nil)
  then show ?thesis
    unfolding s collect_append by (simp split: sum.splits)
qed

lemma ts_corpus_words:
  assumes "u_lower U casa_line = casa_line"
  shows "extract_words_with_pattern_detection U ts_corpus Target Target_source = Inr [casa_word]"
    "extract_words_with_pattern_detection U ts_corpus Source Target_source = Inr [house_line]"
  unfolding extract_words_with_pattern_detection_def ts_corpus_multiline ts_corpus_pairs
  by (simp_all add: pattern_pair_at_def ts_corpus_get strip_casa strip_house strip_Nil
      ts_pair_words [OF assms] pair_words_blank del: One_nat_def)

lemma short_corpus_script: "detect_target_language_script short_corpus 500 = Inr Latin"
proof (rule detect_script_latin, intro allI impI)
  fix sc :: script
  assume "sc \<noteq> Latin"
  have "filter (in_script sc) casa_line = []" "filter (in_script sc) house_line = []"
    using \<open>sc \<noteq> Latin\<close> by (cases sc; simp add: casa_line_eval house_line_eval)+
  then show "script_count sc (take (nat 500) short_corpus) = 0"
    by (simp add: script_count_def short_corpus_def)
qed

lemma script_count_headed:
  "0 < n \<Longrightarrow> script_count sc (take n (x # replicate m [])) = length (filter (in_script sc) x)"
  by (cases n) (simp_all add: script_count_def concat_replicate_Nil)

lemma cyrillic_corpus_counts:
  "0 < n \<Longrightarrow> script_count sc (take n cyrillic_corpus) = (if sc = Cyrillic then 50 else 0)"
  unfolding cyrillic_corpus_def
  by (cases sc) (simp_all add: script_count_headed)

lemma cyrillic_arabic_corpus_counts:
  "0 < n \<Longrightarrow> script_count sc (take n cyrillic_arabic_corpus)
     = (if sc = Cyrillic then 50 else if sc = Arabic then 51 else 0)"
  unfolding cyrillic_arabic_corpus_def
  by (cases sc) (simp_all add: script_count_headed)

lemma cyrillic_arabic_corpus_script:
  "detect_target_language_script cyrillic_arabic_corpus 500 = Inr Arabic"
  by (rule detect_script_dominant) (simp_all add: cyrillic_arabic_corpus_counts)

lemma two_script_sample_script: "detect_target_language_script two_script_sample 1 = Inr Cyrillic"
  by (simp add: detect_target_language_script_def two_script_sample_def tally_char_def
      counter_pop_def counter_get_def py_max_key_def)

lemma triple_lines_eval:
  "entry_line = [97, 47, 60, 110, 62]" "tagged_line = [98, 60, 99, 62]" "prose_line = [100, 46]"
  by (simp_all add: entry_line_def tagged_line_def prose_line_def asc_def)

lemma triple_lines_strip:
  "strip U entry_line = entry_line" "strip U tagged_line = tagged_line"
  "strip U prose_line = prose_line"
  by (simp_all add: strip_def strip_by_def triple_lines_eval py_isspace_def)

lemma triple_indicator:
  "multiline_indicator U entry_line tagged_line prose_line"
  "\<not> multiline_indicator U tagged_line b c" "\<not> multiline_indicator U prose_line b c"
  by (simp_all add: multiline_indicator_def triple_lines_eval)

lemma nth_pad: "n \<le> i \<Longrightarrow> (replicate n x @ ys) ! i = ys ! (i - n)"
  by (simp add: nth_append)

lemma tagged_triples_nth:
  "tagged_triples_corpus ! 50 = entry_line" "tagged_triples_corpus ! 51 = tagged_line"
  "tagged_triples_corpus ! 52 = prose_line" "tagged_triples_corpus ! 53 = entry_line"
  "tagged_triples_corpus ! 54 = tagged_line" "tagged_triples_corpus ! 55 = prose_line"
  "tagged_triples_corpus ! 56 = entry_line" "tagged_triples_corpus ! 57 = tagged_line"
  "tagged_triples_corpus ! 58 = prose_line" "tagged_triples_corpus ! 59 = entry_line"
  "tagged_triples_corpus ! 60 = tagged_line" "tagged_triples_corpus ! 61 = prose_line"
  "tagged_triples_corpus ! 62 = entry_line" "tagged_triples_corpus ! 63 = tagged_line"
  "tagged_triples_corpus ! 64 = prose_line"
  by (simp_all add: tagged_triples_corpus_def nth_pad)

lemma length_tagged_triples: "length tagged_triples_corpus = 65"
  by (simp add: tagged_triples_corpus_def)

lemma tagged_triples_detected: "detect_multiline_format U tagged_triples_corpus = Inr True"
proof -
  have "filter (\<lambda>i. i + 2 < length tagged_triples_corpus
              \<and> multiline_indicator U (strip U (tagged_triples_corpus ! i))
                   (strip U (tagged_triples_corpus ! (i + 1)))
                   (strip U (tagged_triples_corpus ! (i + 2)))) [50..<150]
      = filter (\<lambda>i. multiline_indicator U (strip U (tagged_triples_corpus ! i))
                   (strip U (tagged_triples_corpus ! (i + 1)))
                   (strip U (tagged_triples_corpus ! (i + 2))))
          [50..<min 150 (length tagged_triples_corpus - 2)]"
    by (rule range_filter)
  also have "\<dots> = [50, 53, 56, 59, 62]"
    by (simp add: length_tagged_triples tagged_triples_nth triple_lines_strip triple_indicator
        del: One_nat_def)
  finally show ?thesis
    unfolding detect_multiline_count by simp
qed

lemma tagged_triples_claimed:
  "filter (claimed_multiline_triple U tagged_triples_corpus) [50..<150] = []"
proof -
  let ?P = "\<lambda>i. let line1 = strip U (tagged_triples_corpus ! i);
                     line2 = strip U (tagged_triples_corpus ! (i + 1));
                     line3 = strip U (tagged_triples_corpus ! (i + 2))
         in line1 \<noteq> [] \<and> line2 \<noteq> [] \<and> line3 \<noteq> []
            \<and> 47 \<in> set line1 \<and> (60 \<in> set line1 \<or> 62 \<in> set line1)
            \<and> 47 \<notin> set line2 \<and> 60 \<notin> set line2 \<and> 62 \<notin> set line2
            \<and> (46 \<in> set line3 \<or> 8 < length (split_ws U line3))"
  have "filter (claimed_multiline_triple U tagged_triples_corpus) [50..<150]
      = filter (\<lambda>i. i + 2 < length tagged_triples_corpus \<and> ?P i) [50..<150]"
    unfolding claimed_multiline_triple_def by (rule refl)
  also have "\<dots> = filter ?P [50..<min 150 (length tagged_triples_corpus - 2)]"
    by (rule range_filter)
  also have "\<dots> = []"
    by (simp add: length_tagged_triples tagged_triples_nth triple_lines_strip Let_def
        del: One_nat_def)
       (simp add: triple_lines_eval)
  finally show ?thesis .
qed

lemma abc_line_eval: "abc_line = [97, 98, 99]"
  by (simp add: abc_line_def asc_def)

lemma marker_line_eval: "marker_line = [119, 47, 60, 110, 62]"
  by (simp add: marker_line_def asc_def)

lemma strip_abc: "strip U abc_line = abc_line"
  by (simp add: strip_def strip_by_def abc_line_eval py_isspace_def)

lemma lower_abc: "py_lower U abc_line = abc_line"
  by (simp add: py_lower_def is_ascii_def abc_line_eval ascii_upper_c_def)

lemma not_header_abc: "\<not> is_header_line U abc_line"
  unfolding is_header_line_def Let_def lower_abc
  by (simp add: header_prefixes_eval header_keywords_eval abc_line_eval)

lemma no_year_abc: "\<not> contains_year abc_line"
  by (simp add: contains_year_def abc_line_eval asc_def)

lemma no_marker_abc: "\<not> list_ex (\<lambda>marker. contains marker abc_line) simple_markers"
  by (simp add: simple_markers_def abc_line_eval asc_def)

lemma no_token_abc: "\<not> list_ex (\<lambda>word. contains word abc_line) technical_tokens"
  by (simp add: technical_tokens_def abc_line_eval asc_def)

lemma abc_shape: "abc_line \<noteq> []" "length abc_line = 3" "58 \<notin> set abc_line"
  "\<not> endswith abc_line [58]"
  by (simp_all add: abc_line_eval endswith_def)

lemma claimed_abc_pair:
  assumes "i + 1 < length lines" "lines ! i = abc_line" "lines ! (i + 1) = abc_line"
  shows "claimed_simple_line U lines i \<and> \<not> endswith (strip U (lines ! i)) [58]"
  using assms
  by (simp add: claimed_simple_line_def Let_def strip_abc not_header_abc no_year_abc
      no_marker_abc lower_abc no_token_abc abc_shape del: One_nat_def)

lemma guarded_corpus_nth:
  "guarded_corpus ! 50 = abc_line" "guarded_corpus ! 51 = abc_line"
  "guarded_corpus ! 52 = abc_line" "guarded_corpus ! 53 = abc_line"
  by (simp_all add: guarded_corpus_def nth_pad)

lemma plain_corpus_nth:
  "plain_corpus ! 50 = abc_line" "plain_corpus ! 51 = abc_line"
  "plain_corpus ! 52 = abc_line" "plain_corpus ! 53 = abc_line"
  by (simp_all add: plain_corpus_def nth_pad)

lemma corpus_lengths: "length guarded_corpus = 54" "length plain_corpus = 54"
  by (simp_all add: guarded_corpus_def plain_corpus_def)

lemma three_of_window:
  assumes "P 50" "P 51" "P 52"
  shows "3 \<le> length (filter P [50..<400])"
proof -
  have a: "[50..<400] = [50..<53] @ [53..<400]"
    using upt_add_eq_append [of 50 53 347] by (simp del: upt_rec_numeral)
  have "[50..<53] = [50, 51, 52]"
    by simp
  then have b: "filter P [50..<53] = [50, 51, 52]"
    using assms by simp
  show ?thesis
    unfolding a filter_append b by (simp del: upt_rec_numeral)
qed

lemma guarded_corpus_claimed:
  "3 \<le> length (filter (claimed_simple_line U guarded_corpus) [50..<400])"
  by (rule three_of_window)
     (simp_all add: claimed_abc_pair [THEN conjunct1] corpus_lengths guarded_corpus_nth)

lemma guarded_corpus_rejected: "detect_simple_format U guarded_corpus = Inr False"
  by (simp add: detect_simple_format_def guarded_corpus_def marker_line_eval)

lemma plain_corpus_guard: "\<not> has_pronunciation_pos plain_corpus"
  by (simp add: has_pronunciation_pos_def plain_corpus_def list_ex_iff abc_line_eval)

lemma plain_corpus_count:
  "3 \<le> length (filter (\<lambda>i. claimed_simple_line U plain_corpus i
                \<and> \<not> endswith (strip U (plain_corpus ! i)) [58]) [50..<400])"
  by (rule three_of_window)
     (simp_all add: claimed_abc_pair corpus_lengths plain_corpus_nth strip_abc abc_shape)

lemma dash_records: "index_records dash_idx 0 = [(dash_bytes, 100, 5)]"
  apply (subst index_records.simps)
  apply (simp add: dash_idx_def find_null_def slice_def be32_def dash_bytes_def)
  apply (subst index_records.simps)
  apply (simp add: dash_idx_def find_null_def slice_def be32_def)
  done

lemma dash_parse: "parse_index ascii_ucd dash_idx sample_dict 0 [] = ([], 12)"
  apply (subst parse_index.simps)
  apply (simp add: dash_idx_def sample_dict_def find_null_def slice_def be32_def unpack_II_def)
  apply (subst parse_index.simps)
  apply (simp add: dash_idx_def sample_dict_def find_null_def slice_def be32_def unpack_II_def)
  done

lemma dash_decode: "u_decode ascii_ucd dash_bytes = dash_word"
  by (simp add: ascii_ucd_def dash_bytes_def dash_word_def)

lemma dash_strip: "strip ascii_ucd dash_word = dash_word"
  by (simp add: strip_def strip_by_def dash_word_def py_isspace_def)

lemma dash_upper: "py_upper ascii_ucd dash_word = [65, 66, 45]"
  by (simp add: py_upper_def is_ascii_def dash_word_def ascii_lower_c_def)

lemma dash_valid: "is_valid_word ascii_ucd dash_word"
  apply (simp add: is_valid_word_def dash_strip dash_upper denylist_eval)
  apply (simp add: dash_word_def py_isalnum_def ascii_lower_c_def ascii_upper_c_def
      ascii_digit_c_def valid_extra_chars_def)
  done

lemma dash_clean: "clean_word dash_word = [97, 98]"
  by (simp add: clean_word_def strip_chars_def strip_by_def dash_word_def punct_set)

lemma dash_clean_invalid: "\<not> is_valid_word ascii_ucd [97, 98]"
  by (simp add: is_valid_word_def)

lemma dash_output: "fst (extract_words_from_stardict ascii_ucd dash_idx sample_dict Source) = []"
  by (simp add: stardict_source_words [OF dash_parse] dash_records dash_decode dash_clean
      dash_clean_invalid)

section \<open>Binary index parser: skipped, clamped and recovered records\<close>

text \<open>
  Claim C7, as amended. For every index buffer and data buffer, the entries of the primary
  pass are exactly the records whose offset lies inside the data buffer, each with the
  definition read from that offset with its length clamped to the remaining bytes; so a
  record whose offset is at or beyond the length of the data buffer produces no entry.
  When the recovery pass triggers (fewer entries than the final index position divided
  by 12), the headword of such a skipped record, cleaned of the punctuation at its two
  ends, is among the source-role words whenever that cleaned headword is valid. The
  headword as it stands in the index need not appear: cleaning comes before validation.
\<close>

theorem stardict_skip_clamp_recover:
  "fst (parse_index U idx_data dict_data 0 []) =
     map (record_entry U dict_data)
       (filter (record_in_bounds dict_data) (index_records idx_data 0))
   \<and> (\<forall>r \<in> set (index_records idx_data 0).
        \<not> record_in_bounds dict_data r
        \<longrightarrow> length (fst (parse_index U idx_data dict_data 0 []))
              < snd (parse_index U idx_data dict_data 0 []) div 12
        \<longrightarrow> is_valid_word U (clean_word (u_decode U (fst r)))
        \<longrightarrow> clean_word (u_decode U (fst r))
              \<in> set (fst (extract_words_from_stardict U idx_data dict_data Source)))"
proof -
  obtain entries pos where p: "parse_index U idx_data dict_data 0 [] = (entries, pos)"
    by (cases "parse_index U idx_data dict_data 0 []")
  have e: "entries = map (record_entry U dict_data)
               (filter (record_in_bounds dict_data) (index_records idx_data 0))"
    using parse_index_records [of U idx_data dict_data 0 "[]"] p by simp
  have "clean_word (u_decode U (fst r))
          \<in> set (fst (extract_words_from_stardict U idx_data dict_data Source))"
    if r: "r \<in> set (index_records idx_data 0)" and t: "length entries < pos div 12"
      and v: "is_valid_word U (clean_word (u_decode U (fst r)))" for r
  proof (cases "u_decode U (fst r) \<in> set (map fst entries)")
    case True
    then have "clean_word (u_decode U (fst r)) \<in> set (map (\<lambda>e. clean_word (fst e)) entries)"
      by force
    then show ?thesis
      using v by (simp add: stardict_source_words [OF p])
  next
    case False
    then have "clean_word (u_decode U (fst r))
       \<in> set (map clean_word (filter (\<lambda>w. w \<notin> set (map fst entries))
                (map (\<lambda>rc. u_decode U (fst rc)) (index_records idx_data 0))))"
      using r by auto
    then show ?thesis
      using v t by (simp add: stardict_source_words [OF p])
  qed
  then show ?thesis
    using p e by simp
qed

theorem stardict_skip_clamp_recover_witness:
  "(hello_bytes, 100, 5) \<in> set (index_records sample_idx 0)
   \<and> \<not> record_in_bounds sample_dict (hello_bytes, 100, 5)
   \<and> length (fst (parse_index ascii_ucd sample_idx sample_dict 0 []))
       < snd (parse_index ascii_ucd sample_idx sample_dict 0 []) div 12
   \<and> is_valid_word ascii_ucd (clean_word (u_decode ascii_ucd hello_bytes))
   \<and> hello \<in> set (fst (extract_words_from_stardict ascii_ucd sample_idx sample_dict Source))
   \<and> fst (parse_index ascii_ucd sample_idx sample_dict 0 []) = [(world, [99, 100, 101, 102])]"
proof -
  have a: "(hello_bytes, 100, 5) \<in> set (index_records sample_idx 0)"
    by (simp add: sample_records)
  have b: "\<not> record_in_bounds sample_dict (hello_bytes, 100, 5)"
    by (simp add: record_in_bounds_def sample_dict_def)
  have c: "length (fst (parse_index ascii_ucd sample_idx sample_dict 0 []))
       < snd (parse_index ascii_ucd sample_idx sample_dict 0 []) div 12"
    by (simp add: sample_parse)
  have d: "is_valid_word ascii_ucd (clean_word (u_decode ascii_ucd hello_bytes))"
    by (simp only: sample_decode hello_valid clean_hello)
  have e: "clean_word (u_decode ascii_ucd (fst (hello_bytes, 100::nat, 5::nat)))
       \<in> set (fst (extract_words_from_stardict ascii_ucd sample_idx sample_dict Source))"
    by (rule stardict_skip_clamp_recover [of ascii_ucd sample_idx sample_dict,
          THEN conjunct2, rule_format, OF a b c])
       (simp add: sample_decode clean_hello hello_valid)
  have f: "hello \<in> set (fst (extract_words_from_stardict ascii_ucd sample_idx sample_dict Source))"
    using e by (simp add: sample_decode clean_hello)
  show ?thesis
    using a b c d f by (simp add: sample_parse)
qed

theorem stardict_recover_counterexample:
  "(dash_bytes, 100, 5) \<in> set (index_records dash_idx 0)
   \<and> \<not> record_in_bounds sample_dict (dash_bytes, 100, 5)
   \<and> length (fst (parse_index ascii_ucd dash_idx sample_dict 0 []))
       < snd (parse_index ascii_ucd dash_idx sample_dict 0 []) div 12
   \<and> is_valid_word ascii_ucd (u_decode ascii_ucd dash_bytes)
   \<and> u_decode ascii_ucd dash_bytes
       \<notin> set (fst (extract_words_from_stardict ascii_ucd dash_idx sample_dict Source))"
proof -
  have b: "\<not> record_in_bounds sample_dict (dash_bytes, 100, 5)"
    by (simp add: record_in_bounds_def sample_dict_def)
  show ?thesis
    using b by (simp add: dash_records dash_parse dash_decode dash_valid dash_output)
qed

section \<open>Binary index parser: the two roles\<close>



section \<open>Role inversion for the compressed dictionary format\<close>

text \<open>
  Claim C2. For every line corpus whose document script is Latin and whose alternating
  pattern is target-source, the pipeline called for a \<open>.dz\<close> input with role \<open>r\<close>
  returns exactly what the pairwise extraction returns for the opposite role; without the
  \<open>.dz\<close> flag, and for the source-target pattern with or without it, the requested role
  is passed on unchanged.
\<close>

theorem dz_target_source_role_swap:
  assumes "detect_target_language_script lines 500 = Inr Latin"
  shows "(detect_alternating_pattern U lines = Inr Target_source \<longrightarrow>
            extract_words_from_gzip_content U lines r True
              = extract_words_with_pattern_detection U lines
                  (if r = Source then Target else Source) Target_source
            \<and> extract_words_from_gzip_content U lines r False
              = extract_words_with_pattern_detection U lines r Target_source)
       \<and> (detect_alternating_pattern U lines = Inr Source_target \<longrightarrow>
            extract_words_from_gzip_content U lines r dz
              = extract_words_with_pattern_detection U lines r Source_target)"
  using assms by (simp add: gzip_on_lines)

theorem dz_target_source_role_swap_witness:
  "detect_target_language_script ts_corpus 500 = Inr Latin
   \<and> detect_alternating_pattern ascii_ucd ts_corpus = Inr Target_source
   \<and> extract_words_from_gzip_content ascii_ucd ts_corpus Source True = Inr [casa_word]
   \<and> extract_words_from_gzip_content ascii_ucd ts_corpus Source False = Inr [house_line]"
proof -
  have h: "u_lower ascii_ucd casa_line = casa_line"
    by (simp add: ascii_ucd_def)
  show ?thesis
    using dz_target_source_role_swap [OF ts_corpus_script, of ascii_ucd Source]
    by (simp add: ts_corpus_script ts_corpus_alternating ts_corpus_words [OF h])
qed

section \<open>Script-driven classification\<close>

text \<open>
  Claim C3, as amended. For every corpus whose first 100 lines contain at least 50
  Cyrillic characters, the document script is not Latin and the pipeline takes the
  script-based extraction branch, whatever the later lines hold; the script of that
  branch is Cyrillic whenever the Cyrillic count of the first 500 lines is strictly
  larger than the Arabic, CJK and Devanagari counts.
\<close>

theorem cyrillic_sample_script_driven:
  assumes "50 \<le> script_count Cyrillic (take 100 lines)"
  shows "\<exists>sc. detect_target_language_script lines 500 = Inr sc \<and> sc \<noteq> Latin
           \<and> extract_words_from_gzip_content U lines r dz
               = extract_words_by_script_detection U lines r sc
           \<and> ((\<forall>t. t \<noteq> Latin \<and> t \<noteq> Cyrillic \<longrightarrow>
                   script_count t (take 500 lines) < script_count Cyrillic (take 500 lines))
                \<longrightarrow> sc = Cyrillic)"
proof -
  have c: "50 \<le> script_count Cyrillic (take 500 lines)"
    using assms script_count_take_mono [of 100 500 Cyrillic lines] by simp
  obtain sc where sc: "detect_target_language_script lines 500 = Inr sc"
     "sc = Latin \<longleftrightarrow> (\<forall>t. t \<noteq> Latin \<longrightarrow> script_count t (take (nat 500) lines) = 0)"
    using detect_script_result [of lines 500] by blast
  have nl: "sc \<noteq> Latin"
  proof
    assume "sc = Latin"
    then have "script_count Cyrillic (take (nat 500) lines) = 0" using sc(2) by blast
    then show False using c by simp
  qed
  have g: "extract_words_from_gzip_content U lines r dz
               = extract_words_by_script_detection U lines r sc"
    using sc(1) nl by (simp add: gzip_on_lines)
  have d: "sc = Cyrillic"
    if "\<forall>t. t \<noteq> Latin \<and> t \<noteq> Cyrillic \<longrightarrow>
                   script_count t (take 500 lines) < script_count Cyrillic (take 500 lines)"
  proof -
    have "detect_target_language_script lines 500 = Inr Cyrillic"
      by (rule detect_script_dominant) (use c that in auto)
    then show ?thesis using sc(1) by simp
  qed
  show ?thesis
    using sc(1) nl g d by blast
qed

theorem cyrillic_sample_script_driven_witness:
  "50 \<le> script_count Cyrillic (take 100 cyrillic_corpus)
   \<and> detect_target_language_script cyrillic_corpus 500 = Inr Cyrillic
   \<and> extract_words_from_gzip_content ascii_ucd cyrillic_corpus Target False
       = extract_words_by_script_detection ascii_ucd cyrillic_corpus Target Cyrillic"
proof -
  have h: "50 \<le> script_count Cyrillic (take 100 cyrillic_corpus)"
    by (simp add: cyrillic_corpus_counts)
  have d: "\<forall>t. t \<noteq> Latin \<and> t \<noteq> Cyrillic \<longrightarrow>
      script_count t (take 500 cyrillic_corpus) < script_count Cyrillic (take 500 cyrillic_corpus)"
    by (simp add: cyrillic_corpus_counts)
  from cyrillic_sample_script_driven [OF h, of ascii_ucd Target False] d
  obtain sc where "detect_target_language_script cyrillic_corpus 500 = Inr sc"
    "extract_words_from_gzip_content ascii_ucd cyrillic_corpus Target False
       = extract_words_by_script_detection ascii_ucd cyrillic_corpus Target sc"
    "sc = Cyrillic"
    by blast
  then show ?thesis using h by simp
qed

theorem cyrillic_sample_counterexample:
  "length cyrillic_arabic_corpus = 500
   \<and> 50 \<le> script_count Cyrillic (take 100 cyrillic_arabic_corpus)
   \<and> detect_target_language_script cyrillic_arabic_corpus 500 = Inr Arabic
   \<and> detect_target_language_script cyrillic_arabic_corpus 500 \<noteq> Inr Cyrillic"
  by (simp add: cyrillic_arabic_corpus_script cyrillic_arabic_corpus_counts)
     (simp add: cyrillic_arabic_corpus_def)

section \<open>The document script\<close>

text \<open>
  Claim C4. For every corpus and every sample size, the document script depends only on
  the first \<open>sample_size\<close> lines; the tally holds, for every script, the number of
  characters of the sample in that script's ranges (Latin being 0x20 to 0x7F); it is Latin exactly when no character of the sample
  lies in a non-Latin tracked range (so a Latin tally never wins against another script,
  and a sample without any tracked character gives Latin); otherwise it is a non-Latin
  script that occurs in the sample and whose count is largest among the non-Latin scripts.
\<close>

theorem detect_script_spec:
  "detect_target_language_script lines sample_size
     = detect_target_language_script (take (nat sample_size) lines) sample_size
   \<and> (\<forall>sc. counter_get (tally_lines sample_size 0 lines []) sc
              = script_count sc (take (nat sample_size) lines))
   \<and> (\<exists>r. detect_target_language_script lines sample_size = Inr r
        \<and> (r = Latin \<longleftrightarrow>
             (\<forall>sc. sc \<noteq> Latin \<longrightarrow> script_count sc (take (nat sample_size) lines) = 0))
        \<and> (r \<noteq> Latin \<longrightarrow>
             0 < script_count r (take (nat sample_size) lines)
             \<and> (\<forall>sc. sc \<noteq> Latin \<longrightarrow> script_count sc (take (nat sample_size) lines)
                                      \<le> script_count r (take (nat sample_size) lines))))"
  using detect_script_result [of lines sample_size] detect_script_take [of sample_size lines]
  by (simp add: counter_get_tally_lines)

theorem detect_script_spec_witness:
  "detect_target_language_script two_script_sample 1 = Inr Cyrillic
   \<and> Cyrillic \<noteq> Latin
   \<and> 0 < script_count Cyrillic (take (nat 1) two_script_sample)
   \<and> script_count Arabic (take (nat 1) two_script_sample)
       \<le> script_count Cyrillic (take (nat 1) two_script_sample)
   \<and> detect_target_language_script two_script_sample 1
       = detect_target_language_script (take (nat 1) two_script_sample) 1"
proof -
  from detect_script_spec [of two_script_sample 1]
  obtain r where r: "detect_target_language_script two_script_sample 1 = Inr r"
    "r \<noteq> Latin \<longrightarrow> 0 < script_count r (take (nat 1) two_script_sample)
         \<and> (\<forall>sc. sc \<noteq> Latin \<longrightarrow> script_count sc (take (nat 1) two_script_sample)
                                      \<le> script_count r (take (nat 1) two_script_sample))"
    and t: "detect_target_language_script two_script_sample 1
       = detect_target_language_script (take (nat 1) two_script_sample) 1"
    by blast
  have "r = Cyrillic" using r(1) by (simp add: two_script_sample_script)
  then show ?thesis
    using r(2) t by (auto simp: two_script_sample_script)
qed

section \<open>Multiline detection\<close>

text \<open>
  Claim C5, as amended. For every corpus, \<open>detect_multiline_format\<close> returns True exactly
  when at least five positions \<open>i\<close> of the window from 50 to 149 start a triple of
  non-blank stripped lines in which line \<open>i\<close> contains a slash and an opening angle
  bracket, line \<open>i + 1\<close> contains no slash, and line \<open>i + 2\<close> contains a period or has
  more than 8 whitespace-separated tokens.
\<close>

theorem detect_multiline_exact:
  "detect_multiline_format U lines
     = Inr (5 \<le> length (filter (multiline_triple U lines) [50..<150]))"
  unfolding detect_multiline_count multiline_triple_indicator by (rule refl)

theorem detect_multiline_exact_witness:
  "5 \<le> length (filter (multiline_triple ascii_ucd tagged_triples_corpus) [50..<150])"
  using detect_multiline_exact [of ascii_ucd tagged_triples_corpus]
  by (simp add: tagged_triples_detected del: upt_rec_numeral)

theorem detect_multiline_counterexample:
  "detect_multiline_format ascii_ucd tagged_triples_corpus = Inr True
   \<and> \<not> 5 \<le> length (filter (claimed_multiline_triple ascii_ucd tagged_triples_corpus) [50..<150])"
  by (simp add: tagged_triples_detected tagged_triples_claimed del: upt_rec_numeral)

section \<open>Simple-format detection\<close>

text \<open>
  Claim C6, as amended. For every corpus in which none of the first 200 lines contains a
  slash together with both angle brackets, \<open>detect_simple_format\<close> returns True whenever
  at least three positions of the window from 50 to 399 hold lines that qualify as the
  specification describes and do not end with a colon.
\<close>

theorem detect_simple_sufficient:
  assumes "\<not> has_pronunciation_pos lines"
    and "3 \<le> length (filter (\<lambda>i. claimed_simple_line U lines i
                \<and> \<not> endswith (strip U (lines ! i)) [58]) [50..<400])"
  shows "detect_simple_format U lines = Inr True"
  using assms
  unfolding detect_simple_count simple_pattern_line_claimed has_pronunciation_pos_def
  by simp

theorem detect_simple_sufficient_witness:
  "\<not> has_pronunciation_pos plain_corpus
   \<and> 3 \<le> length (filter (\<lambda>i. claimed_simple_line ascii_ucd plain_corpus i
                \<and> \<not> endswith (strip ascii_ucd (plain_corpus ! i)) [58]) [50..<400])
   \<and> detect_simple_format ascii_ucd plain_corpus = Inr True"
  using detect_simple_sufficient [OF plain_corpus_guard plain_corpus_count, of ascii_ucd]
    plain_corpus_guard plain_corpus_count [of ascii_ucd]
  by (simp del: upt_rec_numeral)

theorem detect_simple_counterexample:
  "3 \<le> length (filter (claimed_simple_line ascii_ucd guarded_corpus) [50..<400])
   \<and> detect_simple_format ascii_ucd guarded_corpus = Inr False"
  using guarded_corpus_claimed [of ascii_ucd] guarded_corpus_rejected [of ascii_ucd]
  by (rule conjI)

section \<open>Totality of the pipeline\<close>

text \<open>
  Claim C9. For every list of lines, every role and both values of the \<open>.dz\<close> flag,
  \<open>extract_words_from_gzip_content\<close> returns a list of words: no index is out of range,
  \<open>max\<close> is never applied to an empty collection, and every loop terminates.
\<close>

theorem gzip_content_total:
  "\<exists>words. extract_words_from_gzip_content U lines r dz = Inr words"
proof -
  have "\<not> isl (extract_words_from_gzip_content U lines r dz)"
    using detect_script_total [of lines 500] detect_alternating_total [of U lines]
      detect_simple_total [of U lines] detect_multiline_total [of U lines]
    by (auto simp: gzip_on_lines script_detection_total pattern_detection_total
        multiline_words_total header_skip_total split: sum.splits)
  then show ?thesis
    by (cases "extract_words_from_gzip_content U lines r dz") auto
qed

section \<open>Short corpora\<close>

text \<open>
  Claim C10. For every corpus of fewer than 52 lines the alternating-pattern detector
  returns unknown and the simple and multiline detectors return False; so when the
  document script of such a corpus is Latin, the pipeline returns what the header-skip
  fallback returns.
\<close>

theorem short_corpus_fallback:
  assumes "length lines < 52"
  shows "detect_alternating_pattern U lines = Inr Unknown
       \<and> detect_simple_format U lines = Inr False
       \<and> detect_multiline_format U lines = Inr False
       \<and> (detect_target_language_script lines 500 = Inr Latin \<longrightarrow>
            extract_words_from_gzip_content U lines r dz = extract_with_header_skip U lines r)"
proof -
  have a: "detect_alternating_pattern U lines = Inr Unknown"
    using assms by (simp add: detect_alternating_pattern_def py_range_empty)
  have s: "detect_simple_format U lines = Inr False"
    using assms by (simp add: detect_simple_format_def py_range_empty Let_def)
  have m: "detect_multiline_format U lines = Inr False"
    using assms by (simp add: detect_multiline_format_def py_range_empty)
  show ?thesis
    using a s m by (simp add: gzip_on_lines)
qed

theorem short_corpus_fallback_witness:
  "length short_corpus < 52
   \<and> detect_target_language_script short_corpus 500 = Inr Latin
   \<and> detect_alternating_pattern ascii_ucd short_corpus = Inr Unknown
   \<and> extract_words_from_gzip_content ascii_ucd short_corpus Source False
       = extract_with_header_skip ascii_ucd short_corpus Source"
proof -
  have l: "length short_corpus < 52"
    by (simp add: short_corpus_def)
  show ?thesis
    using short_corpus_fallback [OF l, of ascii_ucd Source False] l
    by (simp add: short_corpus_script)
qed

section \<open>The casa/house round trip\<close>

text \<open>
  Claim C1. On the 60-line corpus whose lines 50, 52 and 54 are the pronunciation line of
  \<open>casa\<close>, whose lines 51, 53 and 55 are \<open>house\<close>, and whose other lines are blank,
  the document script is Latin, the alternating pattern is source-target, the source-role
  output of the pipeline (no \<open>.dz\<close> flag, default filters) is \<open>casa\<close> three times and
  the target-role output is \<open>house\<close> three times. The one fact taken from the Unicode
  database is that lower-casing the pronunciation line leaves it unchanged.
\<close>

theorem casa_house_round_trip:
  assumes "u_lower U casa_line = casa_line"
  shows "detect_target_language_script casa_corpus 500 = Inr Latin
       \<and> detect_alternating_pattern U casa_corpus = Inr Source_target
       \<and> extract_words_from_gzip_content U casa_corpus Source False
           = Inr [casa_word, casa_word, casa_word]
       \<and> extract_words_from_gzip_content U casa_corpus Target False
           = Inr [house_line, house_line, house_line]"
  by (simp add: gzip_on_lines casa_corpus_script casa_corpus_alternating
      casa_corpus_words [OF assms])

theorem casa_house_round_trip_witness:
  "u_lower ascii_ucd casa_line = casa_line
   \<and> asc ''casa'' \<in> set [casa_word, casa_word, casa_word]
   \<and> asc ''house'' \<in> set [house_line, house_line, house_line]
   \<and> extract_words_from_gzip_content ascii_ucd casa_corpus Source False
           = Inr [casa_word, casa_word, casa_word]
   \<and> extract_words_from_gzip_content ascii_ucd casa_corpus Target False
           = Inr [house_line, house_line, house_line]"
proof -
  have h: "u_lower ascii_ucd casa_line = casa_line"
    by (simp add: ascii_ucd_def)
  show ?thesis
    using casa_house_round_trip [OF h] h by (simp add: casa_word_def house_line_def)
qed

end
